theory Spec2Isabelle
  imports Main "HOL-Library.Word"
begin

section \<open>The session manager of package session (session.go)\<close>

text \<open>
  A shallow embedding of \<^verbatim>\<open>src/session/session.go\<close>. Every method of
  \<^verbatim>\<open>SessionManager\<close> is a function from the manager (and the values it reads
  from its environment: the clock, the random source, the store registry) to an
  outcome. A Go panic is the outcome \<open>Panic\<close>; an error return is a value. The methods
  are modelled one call at a time (the lock is not modelled).
\<close>

subsection \<open>Outcomes and errors\<close>

datatype panic =
    PanicMsg string      \<comment> \<open>an explicit \<^verbatim>\<open>panic(msg)\<close>\<close>
  | NilDeref             \<comment> \<open>a method of \<^verbatim>\<open>container/list\<close> on a nil list, or a nil store\<close>
  | NilMapWrite          \<comment> \<open>assignment to an entry of a nil map\<close>
  | DecodePanic          \<comment> \<open>\<^verbatim>\<open>panic(err)\<close> of NewSessionManager\<close>

datatype 'a outcome = Panic panic | Ret 'a

datatype err =
    ErrEntropy           \<comment> \<open>"Could not successfully read from the system CSPRNG."\<close>
  | ErrEscape            \<comment> \<open>\<^verbatim>\<open>url.EscapeError\<close>\<close>
  | ErrNoStoreType string \<comment> \<open>"No SessionManager types " + typeName\<close>
  | ErrStore string      \<comment> \<open>an error returned by a store factory\<close>

subsection \<open>Machine integers\<close>

text \<open>
  \<^verbatim>\<open>int64\<close> values are integers; an \<^verbatim>\<open>int64\<close> addition or subtraction is
  wrapped into the two's complement range, as Go does.
\<close>

definition wrap64 :: "int \<Rightarrow> int" where
  "wrap64 x = (x + 2 ^ 63) mod 2 ^ 64 - 2 ^ 63"

definition in64 :: "int \<Rightarrow> bool" where
  "in64 x = (- (2 ^ 63) \<le> x \<and> x < 2 ^ 63)"

subsection \<open>The session store\<close>

text \<open>
  Modelled from the spec: the implementations of the interface
  \<^verbatim>\<open>SessionStore\<close> are not part of the sources; the spec (section 4.1) gives their
  contract. A store holds its identifier, its creation time, its last-active time
  and whether it has been released. \<open>Id x\<close> sets the identifier when \<open>x\<close> is not empty
  and returns the current one; \<open>Active set\<close> stamps the last-active time to "now" when
  \<open>set\<close> holds and returns it; \<open>Release\<close> is an idempotent teardown.
\<close>

record store =
  ident :: string
  createTime :: int
  activeTime :: int
  released :: bool

definition store_Id :: "string \<Rightarrow> store \<Rightarrow> store" where
  "store_Id x s = (if x = [] then s else s\<lparr>ident := x\<rparr>)"

definition store_Active :: "bool \<Rightarrow> int \<Rightarrow> store \<Rightarrow> store" where
  "store_Active stamp now s = (if stamp then s\<lparr>activeTime := now\<rparr> else s)"

definition store_Release :: "store \<Rightarrow> store" where
  "store_Release s = s\<lparr>released := True\<rparr>"

subsection \<open>The store registry\<close>

text \<open>
  \<^verbatim>\<open>SessionStoreType\<close> is a factory: from the configuration blob (here its JSON
  text) and the time it reads, a new store or an error. The package variable
  \<^verbatim>\<open>stores\<close> maps names to factories. A nil factory is \<open>None\<close>.
\<close>

type_synonym SessionStoreType = "string \<Rightarrow> int \<Rightarrow> err + store"

type_synonym registry = "string \<rightharpoonup> SessionStoreType"

definition RegisterSessionStore ::
  "registry \<Rightarrow> string \<Rightarrow> SessionStoreType option \<Rightarrow> registry outcome" where
  "RegisterSessionStore stores name one =
     (case one of
        None \<Rightarrow> Panic (PanicMsg ''Register SessionStore nil'')
      | Some f \<Rightarrow>
          (case stores name of
             Some _ \<Rightarrow> Panic (PanicMsg (''Register SessionStore duplicate for '' @ name))
           | None \<Rightarrow> Ret (stores(name \<mapsto> f))))"

definition newSessionStore :: "registry \<Rightarrow> string \<Rightarrow> string \<Rightarrow> int \<Rightarrow> err + store" where
  "newSessionStore stores typeName config now =
     (case stores typeName of
        Some newFunc \<Rightarrow> newFunc config now
      | None \<Rightarrow> Inl (ErrNoStoreType typeName))"

subsection \<open>URL escaping (net/url)\<close>

definition ishex :: "char \<Rightarrow> bool" where
  "ishex c = (let n = (of_char c :: nat) in
     (48 \<le> n \<and> n \<le> 57) \<or> (97 \<le> n \<and> n \<le> 102) \<or> (65 \<le> n \<and> n \<le> 70))"

definition unhex :: "char \<Rightarrow> nat" where
  "unhex c = (let n = (of_char c :: nat) in
     if 48 \<le> n \<and> n \<le> 57 then n - 48
     else if 97 \<le> n \<and> n \<le> 102 then n - 97 + 10
     else if 65 \<le> n \<and> n \<le> 70 then n - 65 + 10
     else 0)"

text \<open>\<^verbatim>\<open>url.QueryUnescape\<close>: \<open>None\<close> is the \<^verbatim>\<open>EscapeError\<close>.\<close>

fun QueryUnescape :: "string \<Rightarrow> string option" where
  "QueryUnescape [] = Some []"
| "QueryUnescape (c # cs) =
     (if c = CHR ''%'' then
        (case cs of
           h1 # h2 # rest \<Rightarrow>
             if ishex h1 \<and> ishex h2
             then map_option ((#) (char_of (unhex h1 * 16 + unhex h2))) (QueryUnescape rest)
             else None
         | _ \<Rightarrow> None)
      else if c = CHR ''+'' then map_option ((#) CHR '' '') (QueryUnescape cs)
      else map_option ((#) c) (QueryUnescape cs))"

definition upperhex :: string where
  "upperhex = ''0123456789ABCDEF''"

definition shouldEscape :: "char \<Rightarrow> bool" where
  "shouldEscape c = (let n = (of_char c :: nat) in
     \<not> ((97 \<le> n \<and> n \<le> 122) \<or> (65 \<le> n \<and> n \<le> 90) \<or> (48 \<le> n \<and> n \<le> 57)
        \<or> c = CHR ''-'' \<or> c = CHR ''_'' \<or> c = CHR ''.'' \<or> c = CHR ''~''))"

definition escape_char :: "char \<Rightarrow> string" where
  "escape_char c =
     (if c = CHR '' '' then ''+''
      else if shouldEscape c
      then [CHR ''%'', upperhex ! ((of_char c :: nat) div 16), upperhex ! ((of_char c :: nat) mod 16)]
      else [c])"

definition QueryEscape :: "string \<Rightarrow> string" where
  "QueryEscape s = concat (map escape_char s)"

subsection \<open>Identifier generation\<close>

text \<open>
  \<^verbatim>\<open>rand.Read(b)\<close> on the 24-byte buffer answers with the number of bytes read,
  whether it failed, and the bytes it wrote (the buffer is 24 zero bytes before).
\<close>

record rand_read =
  rr_n :: nat
  rr_err :: bool
  rr_bytes :: "8 word list"

definition hextable :: string where
  "hextable = ''0123456789abcdef''"

definition EncodeToString :: "8 word list \<Rightarrow> string" where
  "EncodeToString b = concat (map (\<lambda>v. [hextable ! (unat v div 16), hextable ! (unat v mod 16)]) b)"

definition sessionId :: "rand_read \<Rightarrow> err + string" where
  "sessionId rr =
     (let b = take 24 (rr_bytes rr @ replicate 24 0) in
      if rr_n rr \<noteq> length b \<or> rr_err rr then Inl ErrEntropy
      else Inr (EncodeToString b))"

subsection \<open>Cookies, requests and responses (net/http)\<close>

record cookie =
  Name :: string
  Value :: string
  Path :: string
  Domain_c :: string
  Expires :: "int option"   \<comment> \<open>\<open>None\<close> is the zero time\<close>
  MaxAge :: int
  HttpOnly :: bool

text \<open>
  A request is the list of its cookies (name and value) in header order; a
  response is the list of the cookies set on it.
\<close>

type_synonym request = "(string \<times> string) list"
type_synonym response = "cookie list"

text \<open>
  \<^verbatim>\<open>r.Cookie(name)\<close>: the first cookie of that name; \<open>None\<close> is
  \<^verbatim>\<open>ErrNoCookie\<close>, which is also the answer for the empty name.
\<close>

definition Cookie :: "request \<Rightarrow> string \<Rightarrow> (string \<times> string) option" where
  "Cookie r name = (if name = [] then None else find (\<lambda>c. fst c = name) r)"

definition SetCookie :: "response \<Rightarrow> cookie \<Rightarrow> response" where
  "SetCookie w c = w @ [c]"

definition AddCookie :: "request \<Rightarrow> string \<times> string \<Rightarrow> request" where
  "AddCookie r c = r @ [c]"

subsection \<open>The recency list (container/list)\<close>

text \<open>
  A list element is identified by the address of the store it holds (every element
  is made by \<^verbatim>\<open>PushBack\<close> of a newly created store). A \<^verbatim>\<open>*list.List\<close> is the
  sequence of its elements, front first; \<open>None\<close> is the nil pointer.
\<close>

type_synonym addr = nat

definition list_MoveToBack :: "addr list option \<Rightarrow> addr \<Rightarrow> addr list option" where
  "list_MoveToBack l e =
     (case l of
        None \<Rightarrow> None
      | Some xs \<Rightarrow> if e \<notin> set xs \<or> last xs = e then Some xs else Some (remove1 e xs @ [e]))"

definition list_Remove :: "addr list \<Rightarrow> addr \<Rightarrow> addr list" where
  "list_Remove xs e = remove1 e xs"

subsection \<open>The manager\<close>

text \<open>
  The fields of \<^verbatim>\<open>SessionManager\<close>, and the store objects its elements point to:
  \<open>heap\<close> maps an address to the store there, \<open>nalloc\<close> is the next unused address.
  A nil map is \<open>None\<close>.
\<close>

record manager =
  Domain_m :: string
  StoreType :: string
  CookieName :: string
  IdleTime :: int
  CookieExpire :: int
  StoreConfig :: string
  prepireRelease :: "(store \<Rightarrow> store) option"
  sessions :: "(string \<rightharpoonup> addr) option"
  lst :: "addr list option"
  destroied :: bool
  heap :: "addr \<rightharpoonup> store"
  nalloc :: addr

text \<open>Reading a Go map: a nil map has no entry.\<close>

definition map_get :: "(string \<rightharpoonup> addr) option \<Rightarrow> string \<Rightarrow> addr option" where
  "map_get m k = (case m of None \<Rightarrow> None | Some f \<Rightarrow> f k)"

text \<open>\<^verbatim>\<open>delete(m, k)\<close>: nothing on a nil map.\<close>

definition map_delete :: "(string \<rightharpoonup> addr) option \<Rightarrow> string \<Rightarrow> (string \<rightharpoonup> addr) option" where
  "map_delete m k = (case m of None \<Rightarrow> None | Some f \<Rightarrow> Some (f(k := None)))"

text \<open>A method call on the store held by element \<open>e\<close>.\<close>

definition on_store :: "manager \<Rightarrow> addr \<Rightarrow> (store \<Rightarrow> store) \<Rightarrow> manager outcome" where
  "on_store p e f =
     (case heap p e of
        None \<Rightarrow> Panic NilDeref
      | Some s \<Rightarrow> Ret (p\<lparr>heap := (heap p)(e \<mapsto> f s)\<rparr>))"

subsection \<open>GetSession\<close>

text \<open>
  Lines 102 to 115: the working identifier, whether a response cookie is to be
  written, and the error.
\<close>

definition no_cookie :: "(string \<times> string) option \<Rightarrow> bool" where
  "no_cookie c = (case c of None \<Rightarrow> True | Some v \<Rightarrow> snd v = [])"

definition working_id ::
  "manager \<Rightarrow> request \<Rightarrow> string \<Rightarrow> rand_read \<Rightarrow> string \<times> bool \<times> err option" where
  "working_id p r sessionid rr =
     (case Cookie r (CookieName p) of
        None \<Rightarrow>
          (if sessionid = [] then
             (case sessionId rr of Inl e \<Rightarrow> ([], True, Some e) | Inr s \<Rightarrow> (s, True, None))
           else (sessionid, True, None))
      | Some c \<Rightarrow>
          (if snd c = [] then
             (if sessionid = [] then
                (case sessionId rr of Inl e \<Rightarrow> ([], True, Some e) | Inr s \<Rightarrow> (s, True, None))
              else (sessionid, True, None))
           else
             (case QueryUnescape (snd c) of
                None \<Rightarrow> ([], False, Some ErrEscape)
              | Some s \<Rightarrow> (s, False, None))))"

record get_result =
  gr_mgr :: manager
  gr_w :: response
  gr_r :: request
  gr_session :: "addr option"   \<comment> \<open>the returned store, by address; \<open>None\<close> is nil\<close>
  gr_err :: "err option"

text \<open>Lines 120 to 127, shared by GetSession, GetSessionById and SessionUpdate.\<close>

definition touch :: "manager \<Rightarrow> addr \<Rightarrow> int \<Rightarrow> manager outcome" where
  "touch p sess now =
     (case on_store p sess (store_Active True now) of
        Panic x \<Rightarrow> Panic x
      | Ret p1 \<Rightarrow> Ret (p1\<lparr>lst := list_MoveToBack (lst p1) sess\<rparr>))"

text \<open>
  Lines 130 to 138: the new store gets the identifier, is pushed to the back of the
  list and indexed. \<^verbatim>\<open>PushBack\<close> on a nil list panics, and so does the assignment
  to an entry of a nil map.
\<close>

definition insert_new :: "manager \<Rightarrow> string \<Rightarrow> store \<Rightarrow> (manager \<times> addr) outcome" where
  "insert_new p sid s =
     (let e = nalloc p;
          p1 = p\<lparr>heap := (heap p)(e \<mapsto> store_Id sid s), nalloc := Suc e\<rparr>
      in case lst p1 of
           None \<Rightarrow> Panic NilDeref
         | Some xs \<Rightarrow>
             (case sessions p1 of
                None \<Rightarrow> Panic NilMapWrite
              | Some m \<Rightarrow> Ret (p1\<lparr>lst := Some (xs @ [e]), sessions := Some (m(sid \<mapsto> e))\<rparr>, e)))"

definition new_cookie :: "manager \<Rightarrow> string \<Rightarrow> cookie" where
  "new_cookie p sid =
     \<lparr>Name = CookieName p, Value = QueryEscape sid, Path = ''/'', Domain_c = Domain_m p,
      Expires = None, MaxAge = (if CookieExpire p \<ge> 0 then CookieExpire p else 0),
      HttpOnly = False\<rparr>"

definition GetSession ::
  "registry \<Rightarrow> rand_read \<Rightarrow> int \<Rightarrow> manager \<Rightarrow> response \<Rightarrow> request \<Rightarrow> string
     \<Rightarrow> get_result outcome" where
  "GetSession stores rr now p w r sessionid =
     (case working_id p r sessionid rr of
        (sid, writeCookie, Some e) \<Rightarrow>
          Ret \<lparr>gr_mgr = p, gr_w = w, gr_r = r, gr_session = None, gr_err = Some e\<rparr>
      | (sid, writeCookie, None) \<Rightarrow>
          (case map_get (sessions p) sid of
             Some sess \<Rightarrow>
               (case touch p sess now of
                  Panic x \<Rightarrow> Panic x
                | Ret p1 \<Rightarrow>
                    Ret \<lparr>gr_mgr = p1, gr_w = w, gr_r = r, gr_session = Some sess, gr_err = None\<rparr>)
           | None \<Rightarrow>
               (case newSessionStore stores (StoreType p) (StoreConfig p) now of
                  Inl e \<Rightarrow>
                    Ret \<lparr>gr_mgr = p, gr_w = w, gr_r = r, gr_session = None, gr_err = Some e\<rparr>
                | Inr s \<Rightarrow>
                    (case insert_new p sid s of
                       Panic x \<Rightarrow> Panic x
                     | Ret (p1, e) \<Rightarrow>
                         if writeCookie then
                           Ret \<lparr>gr_mgr = p1, gr_w = SetCookie w (new_cookie p sid),
                                gr_r = AddCookie r (CookieName p, QueryEscape sid),
                                gr_session = Some e, gr_err = None\<rparr>
                         else
                           (case Cookie r (CookieName p) of
                              None \<Rightarrow> Panic NilDeref
                            | Some c \<Rightarrow>
                                Ret \<lparr>gr_mgr = p1, gr_w = w, gr_r = AddCookie r c,
                                     gr_session = Some e, gr_err = None\<rparr>)))))"

subsection \<open>SessionDestroy\<close>

record destroy_result =
  dr_mgr :: manager
  dr_w :: response
  dr_sessionid :: string

definition clear_cookie :: "manager \<Rightarrow> int \<Rightarrow> cookie" where
  "clear_cookie p now =
     \<lparr>Name = CookieName p, Value = [], Path = ''/'', Domain_c = [],
      Expires = Some now, MaxAge = - 1, HttpOnly = True\<rparr>"

definition release_by_id :: "manager \<Rightarrow> string \<Rightarrow> manager outcome" where
  "release_by_id p sid =
     (case map_get (sessions p) sid of
        Some session \<Rightarrow> on_store p session store_Release
      | None \<Rightarrow> Ret p)"

definition SessionDestroy ::
  "int \<Rightarrow> manager \<Rightarrow> response \<Rightarrow> request \<Rightarrow> destroy_result outcome" where
  "SessionDestroy now p w r =
     (if no_cookie (Cookie r (CookieName p)) then
        Ret \<lparr>dr_mgr = p, dr_w = w, dr_sessionid = []\<rparr>
      else
        (let sessionid =
               (case QueryUnescape (snd (the (Cookie r (CookieName p)))) of
                  None \<Rightarrow> []
                | Some s \<Rightarrow> s)
         in case release_by_id p sessionid of
              Panic x \<Rightarrow> Panic x
            | Ret p1 \<Rightarrow>
                Ret \<lparr>dr_mgr = p1, dr_w = SetCookie w (clear_cookie p now),
                     dr_sessionid = sessionid\<rparr>))"

subsection \<open>GetSessionById, SessionDestroyById, SessionUpdate, Destroy\<close>

definition GetSessionById ::
  "registry \<Rightarrow> int \<Rightarrow> manager \<Rightarrow> string \<Rightarrow> (manager \<times> addr option \<times> err option) outcome" where
  "GetSessionById stores now p sid =
     (if sid = [] then Ret (p, None, None)
      else
        (case map_get (sessions p) sid of
           Some sess \<Rightarrow>
             (case touch p sess now of
                Panic x \<Rightarrow> Panic x
              | Ret p1 \<Rightarrow> Ret (p1, Some sess, None))
         | None \<Rightarrow>
             (case newSessionStore stores (StoreType p) (StoreConfig p) now of
                Inl e \<Rightarrow> Ret (p, None, Some e)
              | Inr s \<Rightarrow>
                  (case insert_new p sid s of
                     Panic x \<Rightarrow> Panic x
                   | Ret (p1, e) \<Rightarrow> Ret (p1, Some e, None)))))"

definition SessionDestroyById :: "manager \<Rightarrow> string \<Rightarrow> manager outcome" where
  "SessionDestroyById p sid = release_by_id p sid"

definition SessionUpdate :: "int \<Rightarrow> manager \<Rightarrow> string \<Rightarrow> manager outcome" where
  "SessionUpdate now p sid =
     (case map_get (sessions p) sid of
        Some sess \<Rightarrow> touch p sess now
      | None \<Rightarrow> Ret p)"

definition Destroy :: "manager \<Rightarrow> manager" where
  "Destroy p = p\<lparr>sessions := None, lst := None, destroied := True\<rparr>"

definition SetPrepireRelease :: "manager \<Rightarrow> (store \<Rightarrow> store) option \<Rightarrow> manager" where
  "SetPrepireRelease p pf = p\<lparr>prepireRelease := pf\<rparr>"

subsection \<open>The background reclamation loop\<close>

text \<open>
  One pass through the body of the \<^verbatim>\<open>for\<close> loop of \<^verbatim>\<open>gc\<close>, entered with
  \<^verbatim>\<open>destroied == false\<close>. \<open>clock k\<close> is the \<open>k\<close>-th reading of
  \<^verbatim>\<open>time.Now().Unix()\<close> in this run. The pass either breaks (with the value of
  \<^verbatim>\<open>sleep\<close> and the number of clock readings so far) or evicts the front
  element; an eviction is recorded with the element, its store as inspected and the
  clock reading of the comparison.
\<close>

type_synonym eviction = "addr \<times> store \<times> int"

datatype gc_step = Crash panic | Break int nat | Evict manager eviction

definition gc_body :: "(nat \<Rightarrow> int) \<Rightarrow> nat \<Rightarrow> manager \<Rightarrow> int \<Rightarrow> gc_step" where
  "gc_body clock k p sleep =
     (case lst p of
        None \<Rightarrow> Crash NilDeref
      | Some [] \<Rightarrow> Break sleep k
      | Some (element # rest) \<Rightarrow>
          (case heap p element of
             None \<Rightarrow> Crash NilDeref
           | Some s \<Rightarrow>
               if wrap64 (activeTime s + IdleTime p) > clock k
               then Break (wrap64 (wrap64 (activeTime s + IdleTime p) - clock (Suc k))) (k + 2)
               else
                 (let s1 = (case prepireRelease p of None \<Rightarrow> s | Some pf \<Rightarrow> pf s);
                      s2 = store_Release s1
                  in Evict
                       (p\<lparr>heap := (heap p)(element \<mapsto> s2),
                          sessions := map_delete (sessions p) (ident s2),
                          lst := Some (list_Remove (element # rest) element)\<rparr>)
                       (element, s, clock k))))"

definition list_len :: "manager \<Rightarrow> nat" where
  "list_len p = (case lst p of None \<Rightarrow> 0 | Some xs \<Rightarrow> length xs)"

function gc_loop ::
  "(nat \<Rightarrow> int) \<Rightarrow> nat \<Rightarrow> manager \<Rightarrow> eviction list \<Rightarrow> int
     \<Rightarrow> (manager \<times> eviction list \<times> int) outcome" where
  "gc_loop clock k p log sleep =
     (if destroied p then Ret (p, log, sleep)
      else
        (case gc_body clock k p sleep of
           Crash x \<Rightarrow> Panic x
         | Break sleep1 k1 \<Rightarrow> Ret (p, log, sleep1)
         | Evict p1 ev \<Rightarrow> gc_loop clock (Suc k) p1 (log @ [ev]) sleep))"
  by pat_completeness auto
termination
  by (relation "measure (\<lambda>(clock, k, p, log, sleep). list_len p)")
     (auto simp: gc_body_def list_len_def list_Remove_def Let_def
           split: option.splits list.splits if_splits)

declare gc_loop.simps [simp del]

text \<open>
  \<open>gc_next\<close> is the delay in seconds given to \<^verbatim>\<open>time.AfterFunc\<close> for the next
  run of \<^verbatim>\<open>gc\<close>; \<open>None\<close>: no further run is scheduled.
\<close>

record gc_result =
  gc_mgr :: manager
  gc_released :: "eviction list"
  gc_next :: "int option"

definition gc :: "(nat \<Rightarrow> int) \<Rightarrow> manager \<Rightarrow> gc_result outcome" where
  "gc clock p =
     (case gc_loop clock 0 p [] 10 of
        Panic x \<Rightarrow> Panic x
      | Ret (p1, log, sleep) \<Rightarrow>
          Ret \<lparr>gc_mgr = p1, gc_released = log,
               gc_next = (if destroied p1 then None else Some sleep)\<rparr>)"

subsection \<open>NewSessionManager\<close>

text \<open>
  The configuration is marshalled to JSON and decoded into the manager; what the
  model sees is the outcome of that: a nil configuration, a failure of
  \<^verbatim>\<open>json.Marshal\<close>, a failure of \<^verbatim>\<open>Decode\<close>, or the decoded fields.
\<close>

record config =
  c_domain :: string
  c_store_type :: string
  c_cookie_name :: string
  c_idle_time :: int
  c_cookie_expire :: int
  c_store_config :: string

datatype conf_input = NilConf | MarshalFails | DecodeFails | Decoded config

definition fresh_manager :: "config \<Rightarrow> manager" where
  "fresh_manager c =
     \<lparr>Domain_m = c_domain c, StoreType = c_store_type c, CookieName = c_cookie_name c,
      IdleTime = c_idle_time c, CookieExpire = c_cookie_expire c,
      StoreConfig = c_store_config c, prepireRelease = None,
      sessions = Some Map.empty, lst = Some [], destroied = False,
      heap = Map.empty, nalloc = 0\<rparr>"

definition NewSessionManager :: "(nat \<Rightarrow> int) \<Rightarrow> conf_input \<Rightarrow> gc_result option outcome" where
  "NewSessionManager clock sessionConfig =
     (case sessionConfig of
        NilConf \<Rightarrow> Ret None
      | MarshalFails \<Rightarrow> Ret None
      | DecodeFails \<Rightarrow> Panic DecodePanic
      | Decoded c \<Rightarrow>
          (case gc clock (fresh_manager c) of
             Panic x \<Rightarrow> Panic x
           | Ret g \<Rightarrow> Ret (Some g)))"

subsection \<open>An in-memory store factory\<close>

text \<open>
  Modelled from the spec: the in-memory store type registered by the package is not
  part of the sources. Its factory never fails and stamps the creation time and the
  last-active time of the new store with the time it reads.
\<close>

definition memory_store :: SessionStoreType where
  "memory_store cfg now = Inr \<lparr>ident = [], createTime = now, activeTime = now, released = False\<rparr>"

subsection \<open>Sequences of operations\<close>

text \<open>
  A call of a method of the manager with its arguments and what it reads from the
  environment; \<open>step\<close> makes the call and keeps the manager, \<open>run\<close> makes the calls
  of a list in order and stops at a panic.
\<close>

datatype op =
    OpGetSession rand_read int response request string
  | OpGetSessionById int string
  | OpSessionUpdate int string
  | OpSessionDestroy int response request
  | OpSessionDestroyById string
  | OpGc "nat \<Rightarrow> int"
  | OpDestroy
  | OpSetPrepireRelease "(store \<Rightarrow> store) option"

definition step :: "registry \<Rightarrow> manager \<Rightarrow> op \<Rightarrow> manager outcome" where
  "step stores p x =
     (case x of
        OpGetSession rr now w r sessionid \<Rightarrow>
          (case GetSession stores rr now p w r sessionid of
             Panic e \<Rightarrow> Panic e | Ret res \<Rightarrow> Ret (gr_mgr res))
      | OpGetSessionById now sid \<Rightarrow>
          (case GetSessionById stores now p sid of
             Panic e \<Rightarrow> Panic e | Ret res \<Rightarrow> Ret (fst res))
      | OpSessionUpdate now sid \<Rightarrow> SessionUpdate now p sid
      | OpSessionDestroy now w r \<Rightarrow>
          (case SessionDestroy now p w r of
             Panic e \<Rightarrow> Panic e | Ret res \<Rightarrow> Ret (dr_mgr res))
      | OpSessionDestroyById sid \<Rightarrow> SessionDestroyById p sid
      | OpGc clock \<Rightarrow>
          (case gc clock p of Panic e \<Rightarrow> Panic e | Ret res \<Rightarrow> Ret (gc_mgr res))
      | OpDestroy \<Rightarrow> Ret (Destroy p)
      | OpSetPrepireRelease pf \<Rightarrow> Ret (SetPrepireRelease p pf))"

fun run :: "registry \<Rightarrow> manager \<Rightarrow> op list \<Rightarrow> manager outcome" where
  "run stores p [] = Ret p"
| "run stores p (x # xs) =
     (case step stores p x of Panic e \<Rightarrow> Panic e | Ret p1 \<Rightarrow> run stores p1 xs)"

text \<open>The identifiers that are keys of the map, and the stores held by the list, front first.\<close>

definition key_ids :: "manager \<Rightarrow> string set" where
  "key_ids p = (case sessions p of None \<Rightarrow> {} | Some m \<Rightarrow> dom m)"

definition stores_of :: "manager \<Rightarrow> store list" where
  "stores_of p = (case lst p of None \<Rightarrow> [] | Some xs \<Rightarrow> List.map_filter (heap p) xs)"

definition list_ids :: "manager \<Rightarrow> string set" where
  "list_ids p = ident ` set (stores_of p)"

definition list_back :: "manager \<Rightarrow> addr option" where
  "list_back p = (case lst p of None \<Rightarrow> None | Some xs \<Rightarrow> if xs = [] then None else Some (last xs))"

text \<open>
  What the environment is assumed to respect: a release callback does not change
  the identifier of the store it is given (the identifier is immutable, spec section
  3); a factory stamps the last-active time of the store it creates with the time
  it reads; the times at which sessions are created or touched do not decrease.
\<close>

definition keeps_ident :: "(store \<Rightarrow> store) option \<Rightarrow> bool" where
  "keeps_ident pf = (case pf of None \<Rightarrow> True | Some f \<Rightarrow> \<forall>s. ident (f s) = ident s)"

definition op_ok :: "op \<Rightarrow> bool" where
  "op_ok x = (case x of OpSetPrepireRelease pf \<Rightarrow> keeps_ident pf | _ \<Rightarrow> True)"

definition stamps :: "registry \<Rightarrow> bool" where
  "stamps stores =
     (\<forall>name f cfg now s. stores name = Some f \<longrightarrow> f cfg now = Inr s \<longrightarrow> activeTime s = now)"

definition op_time :: "op \<Rightarrow> int option" where
  "op_time x =
     (case x of
        OpGetSession rr now w r sessionid \<Rightarrow> Some now
      | OpGetSessionById now sid \<Rightarrow> Some now
      | OpSessionUpdate now sid \<Rightarrow> Some now
      | _ \<Rightarrow> None)"

fun times_ok :: "int \<Rightarrow> op list \<Rightarrow> bool" where
  "times_ok t [] = True"
| "times_ok t (x # xs) =
     (case op_time x of None \<Rightarrow> times_ok t xs | Some now \<Rightarrow> t \<le> now \<and> times_ok now xs)"

subsection \<open>Invariants\<close>

text \<open>
  The map and the list index each other: the elements of the list are distinct,
  allocated, and each is the entry of the map under the identifier of its store;
  each entry of the map is an element of the list whose store has the key as its
  identifier.
\<close>

definition wf_parts :: "(string \<rightharpoonup> addr) \<Rightarrow> addr list \<Rightarrow> (addr \<rightharpoonup> store) \<Rightarrow> nat \<Rightarrow> bool" where
  "wf_parts m xs h n =
     (distinct xs
      \<and> (\<forall>a \<in> set xs. a < n \<and> (\<exists>s. h a = Some s \<and> m (ident s) = Some a))
      \<and> (\<forall>k a. m k = Some a \<longrightarrow> a \<in> set xs \<and> (\<exists>s. h a = Some s \<and> ident s = k)))"

definition wf :: "manager \<Rightarrow> bool" where
  "wf p =
     (keeps_ident (prepireRelease p)
      \<and> (case sessions p of
           None \<Rightarrow> lst p = None
         | Some m \<Rightarrow>
             (case lst p of None \<Rightarrow> False | Some xs \<Rightarrow> wf_parts m xs (heap p) (nalloc p))))"

text \<open>The manager still has its map (it has not been destroyed).\<close>

definition live :: "manager \<Rightarrow> bool" where
  "live p = (sessions p \<noteq> None)"

text \<open>The list is sorted by last-active time, and no last-active time is after \<open>t\<close>.\<close>

definition act :: "(addr \<rightharpoonup> store) \<Rightarrow> addr \<Rightarrow> int" where
  "act h a = (case h a of None \<Rightarrow> 0 | Some s \<Rightarrow> activeTime s)"

definition ordered_parts :: "int \<Rightarrow> addr list \<Rightarrow> (addr \<rightharpoonup> store) \<Rightarrow> bool" where
  "ordered_parts t xs h = (sorted (map (act h) xs) \<and> (\<forall>a \<in> set xs. act h a \<le> t))"

definition ordered :: "int \<Rightarrow> manager \<Rightarrow> bool" where
  "ordered t p = (case lst p of None \<Rightarrow> True | Some xs \<Rightarrow> ordered_parts t xs (heap p))"

subsection \<open>Concrete inputs\<close>

definition const_clock :: "int \<Rightarrow> nat \<Rightarrow> int" where
  "const_clock t k = t"

definition cfg0 :: config where
  "cfg0 = \<lparr>c_domain = ''example.org'', c_store_type = ''memory'', c_cookie_name = ''sid'',
           c_idle_time = 2, c_cookie_expire = - 1, c_store_config = []\<rparr>"

definition stores0 :: registry where
  "stores0 = [''memory'' \<mapsto> memory_store]"

definition cfg_max :: config where
  "cfg_max = \<lparr>c_domain = ''example.org'', c_store_type = ''memory'', c_cookie_name = ''sid'',
              c_idle_time = 9223372036854775807, c_cookie_expire = - 1, c_store_config = []\<rparr>"

definition store_a :: store where
  "store_a = \<lparr>ident = ''a'', createTime = 1, activeTime = 1, released = False\<rparr>"

text \<open>The manager built from \<open>c\<close> after session \<open>''a''\<close> was created at time 1.\<close>

definition with_a :: "config \<Rightarrow> manager" where
  "with_a c = (fresh_manager c)\<lparr>sessions := Some [''a'' \<mapsto> 0], lst := Some [0],
                heap := [0 \<mapsto> store_a], nalloc := 1\<rparr>"

definition rr_fail :: rand_read where
  "rr_fail = \<lparr>rr_n = 0, rr_err = True, rr_bytes = []\<rparr>"

definition rr_ok :: rand_read where
  "rr_ok = \<lparr>rr_n = 24, rr_err = False,
            rr_bytes = [0, 1, 2, 3, 4, 5, 6, 7, 8, 9, 10, 11, 12, 13, 14, 15, 16, 17, 18, 19,
                        171, 205, 239, 255]\<rparr>"

definition sid_ok :: string where
  "sid_ok = ''000102030405060708090a0b0c0d0e0f10111213abcdefff''"

definition store_b :: store where
  "store_b = \<lparr>ident = ''b'', createTime = 2, activeTime = 2, released = True\<rparr>"

definition store_c :: store where
  "store_c = \<lparr>ident = ''c'', createTime = 3, activeTime = 3, released = False\<rparr>"

definition ops0 :: "op list" where
  "ops0 = [OpSetPrepireRelease (Some store_Release),
           OpGetSessionById 1 ''a'', OpGetSessionById 2 ''b'', OpGetSessionById 3 ''c'',
           OpSessionUpdate 4 ''a'', OpSessionDestroyById ''b'', OpGc (const_clock 4)]"

text \<open>The manager built from \<open>cfg0\<close> after \<open>ops0\<close>.\<close>

definition after_ops0 :: manager where
  "after_ops0 = (fresh_manager cfg0)\<lparr>prepireRelease := Some store_Release,
                  sessions := Some [''a'' \<mapsto> 0, ''c'' \<mapsto> 2], lst := Some [2, 0],
                  heap := [2 \<mapsto> store_c, 0 \<mapsto> store_a\<lparr>activeTime := 4\<rparr>, 1 \<mapsto> store_b],
                  nalloc := 3\<rparr>"

section \<open>Properties\<close>

subsection \<open>The registry\<close>

text \<open>
  C8. \<^verbatim>\<open>RegisterSessionStore\<close> panics when the factory is nil and when the name is
  already registered; in every other case it returns the registry with the factory
  added under that name.
\<close>

theorem RegisterSessionStore_spec:
  "RegisterSessionStore stores name None = Panic (PanicMsg ''Register SessionStore nil'')
   \<and> (stores name \<noteq> None \<longrightarrow>
        RegisterSessionStore stores name (Some f)
          = Panic (PanicMsg (''Register SessionStore duplicate for '' @ name)))
   \<and> (stores name = None \<longrightarrow>
        RegisterSessionStore stores name (Some f) = Ret (stores(name \<mapsto> f)))"
  by (auto simp: RegisterSessionStore_def split: option.splits)

theorem RegisterSessionStore_spec_witness:
  "RegisterSessionStore Map.empty ''memory'' (Some memory_store) = Ret stores0
   \<and> RegisterSessionStore stores0 ''memory'' (Some memory_store)
       = Panic (PanicMsg ''Register SessionStore duplicate for memory'')
   \<and> RegisterSessionStore stores0 ''memory2'' None
       = Panic (PanicMsg ''Register SessionStore nil'')"
  using RegisterSessionStore_spec [of Map.empty "''memory''" memory_store]
        RegisterSessionStore_spec [of stores0 "''memory''" memory_store]
        RegisterSessionStore_spec [of stores0 "''memory2''"]
  by (simp add: stores0_def)

subsection \<open>Lookup by the empty identifier\<close>

text \<open>
  C10. \<^verbatim>\<open>GetSessionById\<close> with the empty identifier returns a nil session and a
  nil error and leaves the manager as it is: no store is created, the map and the
  list are unchanged.
\<close>

theorem GetSessionById_empty:
  "GetSessionById stores now p [] = Ret (p, None, None)"
  by (simp add: GetSessionById_def)

subsection \<open>The reclamation loop on an empty list\<close>

lemma gc_loop_sleep:
  "gc_loop clock k p log sleep = Ret (p1, log1, sleep1) \<Longrightarrow> \<not> destroied p \<Longrightarrow>
   lst p1 = Some [] \<Longrightarrow> sleep1 = sleep \<and> \<not> destroied p1"
proof (induction clock k p log sleep rule: gc_loop.induct)
  case (1 clock k p log sleep)
  show ?case
  proof (cases "gc_body clock k p sleep")
    case (Crash x)
    with "1.prems" show ?thesis by (simp add: gc_loop.simps)
  next
    case (Break s1 k1)
    with "1.prems" show ?thesis
      by (auto simp: gc_loop.simps gc_body_def split: option.splits list.splits if_splits)
  next
    case (Evict p2 ev)
    with "1.prems" have l: "gc_loop clock (Suc k) p2 (log @ [ev]) sleep = Ret (p1, log1, sleep1)"
      by (simp add: gc_loop.simps)
    from Evict "1.prems"(2) have "\<not> destroied p2"
      by (auto simp: gc_body_def Let_def split: option.splits list.splits if_splits)
    from "1.IH" [OF "1.prems"(2) Evict l this "1.prems"(3)] show ?thesis .
  qed
qed

text \<open>
  C2, as the code has it. When \<^verbatim>\<open>gc\<close> finds the list empty on a manager that is
  not destroyed, it stops scanning and schedules its next run 10 seconds later (the
  initial value of \<^verbatim>\<open>sleep\<close>): at once, with nothing evicted and the manager
  unchanged, when the list is empty at the start, and likewise when the evictions of
  the run have emptied it.
\<close>

theorem gc_empty_reschedules:
  "(lst p = Some [] \<longrightarrow> \<not> destroied p \<longrightarrow>
      gc clock p = Ret \<lparr>gc_mgr = p, gc_released = [], gc_next = Some 10\<rparr>)
   \<and> (gc clock p = Ret res \<longrightarrow> \<not> destroied p \<longrightarrow> lst (gc_mgr res) = Some [] \<longrightarrow>
        gc_next res = Some 10)"
proof (intro conjI impI)
  assume "lst p = Some []" and "\<not> destroied p"
  then show "gc clock p = Ret \<lparr>gc_mgr = p, gc_released = [], gc_next = Some 10\<rparr>"
    by (simp add: gc_def gc_loop.simps gc_body_def)
next
  assume g: "gc clock p = Ret res" and d: "\<not> destroied p" and e: "lst (gc_mgr res) = Some []"
  from g obtain log1 sleep1 where l: "gc_loop clock 0 p [] 10 = Ret (gc_mgr res, log1, sleep1)"
    and n: "gc_next res = (if destroied (gc_mgr res) then None else Some sleep1)"
    by (auto simp: gc_def split: outcome.splits)
  from gc_loop_sleep [OF l d e] n show "gc_next res = Some 10" by simp
qed

theorem gc_empty_reschedules_witness:
  "NewSessionManager (const_clock 0) (Decoded cfg0)
     = Ret (Some \<lparr>gc_mgr = fresh_manager cfg0, gc_released = [], gc_next = Some 10\<rparr>)
   \<and> gc (const_clock 5) (with_a cfg0)
       = Ret \<lparr>gc_mgr = (with_a cfg0)\<lparr>sessions := Some Map.empty, lst := Some [],
                                       heap := [0 \<mapsto> store_a\<lparr>released := True\<rparr>]\<rparr>,
              gc_released = [(0, store_a, 5)], gc_next = Some 10\<rparr>"
proof -
  let ?res = "\<lparr>gc_mgr = (with_a cfg0)\<lparr>sessions := Some Map.empty, lst := Some [],
                                       heap := [0 \<mapsto> store_a\<lparr>released := True\<rparr>]\<rparr>,
              gc_released = [(0, store_a, 5)], gc_next = Some 10\<rparr>"
  have g: "gc (const_clock 5) (with_a cfg0) = Ret ?res"
    by (simp add: gc_def gc_loop.simps gc_body_def with_a_def fresh_manager_def cfg0_def
          store_a_def wrap64_def const_clock_def store_Release_def map_delete_def list_Remove_def)
  from gc_empty_reschedules [of "fresh_manager cfg0" "const_clock 0"]
       gc_empty_reschedules [of "with_a cfg0" "const_clock 5" ?res] g
  show ?thesis
    by (simp add: NewSessionManager_def fresh_manager_def with_a_def)
qed

text \<open>
  The claim as stated (no further run is scheduled after an empty-list scan) fails on
  a newly built manager: its list is empty and \<^verbatim>\<open>gc\<close> schedules a run.
\<close>

theorem gc_empty_counterexample:
  "lst (fresh_manager cfg0) = Some [] \<and>
   gc (const_clock 0) (fresh_manager cfg0)
     = Ret \<lparr>gc_mgr = fresh_manager cfg0, gc_released = [], gc_next = Some 10\<rparr>"
  by (simp add: gc_def gc_loop.simps gc_body_def fresh_manager_def)

subsection \<open>A destroyed manager\<close>

text \<open>
  C3, as the code has it. After \<^verbatim>\<open>Destroy\<close>, \<^verbatim>\<open>gc\<close> evicts nothing and
  schedules no further run; \<^verbatim>\<open>SessionUpdate\<close> and \<^verbatim>\<open>SessionDestroyById\<close> return
  with the manager unchanged; \<^verbatim>\<open>SessionDestroy\<close> returns with the manager unchanged;
  \<^verbatim>\<open>GetSessionById\<close> with the empty identifier returns nil; \<^verbatim>\<open>GetSession\<close> and
  \<^verbatim>\<open>GetSessionById\<close> return the error, with the manager unchanged, when the
  identifier cannot be determined or the store cannot be created. None of these
  panics.
\<close>

theorem after_Destroy:
  "gc clock (Destroy p) = Ret \<lparr>gc_mgr = Destroy p, gc_released = [], gc_next = None\<rparr>
   \<and> SessionUpdate now (Destroy p) sid = Ret (Destroy p)
   \<and> SessionDestroyById (Destroy p) sid = Ret (Destroy p)
   \<and> (\<exists>w1 sid1. SessionDestroy now (Destroy p) w r
         = Ret \<lparr>dr_mgr = Destroy p, dr_w = w1, dr_sessionid = sid1\<rparr>)
   \<and> GetSessionById stores now (Destroy p) [] = Ret (Destroy p, None, None)
   \<and> (newSessionStore stores (StoreType p) (StoreConfig p) now = Inl e \<longrightarrow> sid \<noteq> [] \<longrightarrow>
        GetSessionById stores now (Destroy p) sid = Ret (Destroy p, None, Some e))
   \<and> (snd (snd (working_id (Destroy p) r sessionid rr)) = Some e \<longrightarrow>
        GetSession stores rr now (Destroy p) w r sessionid
          = Ret \<lparr>gr_mgr = Destroy p, gr_w = w, gr_r = r, gr_session = None, gr_err = Some e\<rparr>)
   \<and> (snd (snd (working_id (Destroy p) r sessionid rr)) = None \<longrightarrow>
        newSessionStore stores (StoreType p) (StoreConfig p) now = Inl e \<longrightarrow>
        GetSession stores rr now (Destroy p) w r sessionid
          = Ret \<lparr>gr_mgr = Destroy p, gr_w = w, gr_r = r, gr_session = None, gr_err = Some e\<rparr>)"
proof (intro conjI)
  show "gc clock (Destroy p) = Ret \<lparr>gc_mgr = Destroy p, gc_released = [], gc_next = None\<rparr>"
    by (simp add: gc_def gc_loop.simps Destroy_def)
  show "SessionUpdate now (Destroy p) sid = Ret (Destroy p)"
    by (simp add: SessionUpdate_def Destroy_def map_get_def)
  show "SessionDestroyById (Destroy p) sid = Ret (Destroy p)"
    by (simp add: SessionDestroyById_def release_by_id_def Destroy_def map_get_def)
  show "\<exists>w1 sid1. SessionDestroy now (Destroy p) w r
          = Ret \<lparr>dr_mgr = Destroy p, dr_w = w1, dr_sessionid = sid1\<rparr>"
    by (simp add: SessionDestroy_def release_by_id_def Destroy_def map_get_def Let_def)
  show "GetSessionById stores now (Destroy p) [] = Ret (Destroy p, None, None)"
    by (simp add: GetSessionById_def)
  show "newSessionStore stores (StoreType p) (StoreConfig p) now = Inl e \<longrightarrow> sid \<noteq> [] \<longrightarrow>
        GetSessionById stores now (Destroy p) sid = Ret (Destroy p, None, Some e)"
    by (simp add: GetSessionById_def Destroy_def map_get_def)
  show "snd (snd (working_id (Destroy p) r sessionid rr)) = Some e \<longrightarrow>
        GetSession stores rr now (Destroy p) w r sessionid
          = Ret \<lparr>gr_mgr = Destroy p, gr_w = w, gr_r = r, gr_session = None, gr_err = Some e\<rparr>"
    by (auto simp add: GetSession_def split: prod.splits)
  show "snd (snd (working_id (Destroy p) r sessionid rr)) = None \<longrightarrow>
        newSessionStore stores (StoreType p) (StoreConfig p) now = Inl e \<longrightarrow>
        GetSession stores rr now (Destroy p) w r sessionid
          = Ret \<lparr>gr_mgr = Destroy p, gr_w = w, gr_r = r, gr_session = None, gr_err = Some e\<rparr>"
    by (auto simp add: GetSession_def Destroy_def map_get_def split: prod.splits)
qed

theorem after_Destroy_witness:
  "gc (const_clock 5) (Destroy (fresh_manager cfg0))
     = Ret \<lparr>gc_mgr = Destroy (fresh_manager cfg0), gc_released = [], gc_next = None\<rparr>
   \<and> SessionUpdate 5 (Destroy (fresh_manager cfg0)) ''abc'' = Ret (Destroy (fresh_manager cfg0))
   \<and> GetSessionById Map.empty 5 (Destroy (fresh_manager cfg0)) ''abc''
       = Ret (Destroy (fresh_manager cfg0), None, Some (ErrNoStoreType ''memory''))
   \<and> GetSession Map.empty \<lparr>rr_n = 0, rr_err = True, rr_bytes = []\<rparr> 5
        (Destroy (fresh_manager cfg0)) [] [(''sid'', ''abc'')] []
       = Ret \<lparr>gr_mgr = Destroy (fresh_manager cfg0), gr_w = [], gr_r = [(''sid'', ''abc'')],
              gr_session = None, gr_err = Some (ErrNoStoreType ''memory'')\<rparr>
   \<and> GetSession Map.empty \<lparr>rr_n = 0, rr_err = True, rr_bytes = []\<rparr> 5
        (Destroy (fresh_manager cfg0)) [] [] []
       = Ret \<lparr>gr_mgr = Destroy (fresh_manager cfg0), gr_w = [], gr_r = [],
              gr_session = None, gr_err = Some ErrEntropy\<rparr>"
  using after_Destroy [of "const_clock 5" "fresh_manager cfg0" 5 "''abc''" "[]" "[(''sid'', ''abc'')]"
          Map.empty "ErrNoStoreType ''memory''" "[]" "\<lparr>rr_n = 0, rr_err = True, rr_bytes = []\<rparr>"]
        after_Destroy [of "const_clock 5" "fresh_manager cfg0" 5 "''abc''" "[]" "[]"
          Map.empty "ErrEntropy" "[]" "\<lparr>rr_n = 0, rr_err = True, rr_bytes = []\<rparr>"]
  by (simp add: newSessionStore_def working_id_def Cookie_def Destroy_def fresh_manager_def
        cfg0_def sessionId_def)

text \<open>
  The claim as stated fails: on a destroyed manager, \<^verbatim>\<open>GetSessionById\<close> with an
  identifier and a registered store type creates the store and then panics in
  \<^verbatim>\<open>PushBack\<close> on the nil list.
\<close>

theorem after_Destroy_counterexample:
  "GetSessionById stores0 5 (Destroy (fresh_manager cfg0)) ''abc'' = Panic NilDeref"
  by (simp add: GetSessionById_def Destroy_def fresh_manager_def map_get_def newSessionStore_def
      stores0_def cfg0_def memory_store_def insert_new_def Let_def)

subsection \<open>The working identifier of GetSession\<close>

lemma length_EncodeToString: "length (EncodeToString b) = 2 * length b"
  by (induction b) (simp_all add: EncodeToString_def)

lemma hextable_nth: "n < 16 \<Longrightarrow> hextable ! n \<in> set hextable"
proof -
  assume "n < 16"
  moreover have "length hextable = 16" by (simp add: hextable_def)
  ultimately show ?thesis by (simp only: nth_mem)
qed

lemma set_EncodeToString: "set (EncodeToString b) \<subseteq> set hextable"
proof (induction b)
  case Nil
  then show ?case by (simp add: EncodeToString_def)
next
  case (Cons v b)
  have "unat v < 256" using unsigned_less [of v] by simp
  then have "unat v div 16 < 16" by simp
  then have a: "hextable ! (unat v div 16) \<in> set hextable" by (rule hextable_nth)
  have "unat v mod 16 < 16" by simp
  then have b: "hextable ! (unat v mod 16) \<in> set hextable" by (rule hextable_nth)
  from Cons a b show ?case by (simp add: EncodeToString_def)
qed

lemma sessionId_ok:
  "rr_n rr = 24 \<Longrightarrow> \<not> rr_err rr \<Longrightarrow>
   sessionId rr = Inr (EncodeToString (take 24 (rr_bytes rr @ replicate 24 0)))"
  by (simp add: sessionId_def Let_def)

lemma sessionId_fail:
  "rr_n rr \<noteq> 24 \<or> rr_err rr \<Longrightarrow> sessionId rr = Inl ErrEntropy"
  by (auto simp: sessionId_def Let_def)

text \<open>
  C6. \<^verbatim>\<open>GetSession\<close> takes its working identifier from the request's cookie when
  the cookie is there with a non-empty value (its unescaped value, whatever the
  caller supplied); otherwise from the caller when that identifier is not empty;
  otherwise from the random source. The flag for writing a response cookie is set
  exactly in the cases without a cookie, a response cookie is written only then, and
  the working identifier is the key under which the returned session is indexed.
  When the random source fills the 24-byte buffer without error, the generated
  identifier is the hex encoding of those bytes: 48 characters, all hex digits; when
  it does not, the error is returned.
\<close>

theorem working_id_order:
  "(Cookie r (CookieName p) = Some (n, v) \<longrightarrow> v \<noteq> [] \<longrightarrow>
      working_id p r sessionid rr
        = (case QueryUnescape v of
             None \<Rightarrow> ([], False, Some ErrEscape)
           | Some s \<Rightarrow> (s, False, None)))
   \<and> (no_cookie (Cookie r (CookieName p)) \<longrightarrow> sessionid \<noteq> [] \<longrightarrow>
        working_id p r sessionid rr = (sessionid, True, None))
   \<and> (no_cookie (Cookie r (CookieName p)) \<longrightarrow> sessionid = [] \<longrightarrow>
        working_id p r sessionid rr
          = (case sessionId rr of
               Inl e \<Rightarrow> ([], True, Some e)
             | Inr s \<Rightarrow> (s, True, None)))
   \<and> (fst (snd (working_id p r sessionid rr)) = no_cookie (Cookie r (CookieName p)))
   \<and> (GetSession stores rr now p w r sessionid = Ret res \<longrightarrow>
        (gr_w res \<noteq> w \<longrightarrow> no_cookie (Cookie r (CookieName p)))
        \<and> (gr_session res = Some a \<longrightarrow>
             map_get (sessions (gr_mgr res)) (fst (working_id p r sessionid rr)) = Some a))
   \<and> (rr_n rr = 24 \<longrightarrow> \<not> rr_err rr \<longrightarrow>
        sessionId rr = Inr (EncodeToString (take 24 (rr_bytes rr @ replicate 24 0)))
        \<and> length (EncodeToString (take 24 (rr_bytes rr @ replicate 24 0))) = 48
        \<and> set (EncodeToString (take 24 (rr_bytes rr @ replicate 24 0))) \<subseteq> set hextable
        \<and> (no_cookie (Cookie r (CookieName p)) \<longrightarrow> sessionid = [] \<longrightarrow>
             working_id p r sessionid rr
               = (EncodeToString (take 24 (rr_bytes rr @ replicate 24 0)), True, None)))
   \<and> (rr_n rr \<noteq> 24 \<or> rr_err rr \<longrightarrow>
        sessionId rr = Inl ErrEntropy
        \<and> (no_cookie (Cookie r (CookieName p)) \<longrightarrow> sessionid = [] \<longrightarrow>
             working_id p r sessionid rr = ([], True, Some ErrEntropy)))"
proof (intro conjI)
  show "Cookie r (CookieName p) = Some (n, v) \<longrightarrow> v \<noteq> [] \<longrightarrow>
      working_id p r sessionid rr
        = (case QueryUnescape v of
             None \<Rightarrow> ([], False, Some ErrEscape)
           | Some s \<Rightarrow> (s, False, None))"
    by (simp add: working_id_def)
  show "no_cookie (Cookie r (CookieName p)) \<longrightarrow> sessionid \<noteq> [] \<longrightarrow>
        working_id p r sessionid rr = (sessionid, True, None)"
    by (auto simp: working_id_def no_cookie_def split: option.splits)
  show fb: "no_cookie (Cookie r (CookieName p)) \<longrightarrow> sessionid = [] \<longrightarrow>
        working_id p r sessionid rr
          = (case sessionId rr of
               Inl e \<Rightarrow> ([], True, Some e)
             | Inr s \<Rightarrow> (s, True, None))"
    by (auto simp: working_id_def no_cookie_def split: option.splits)
  show flag: "fst (snd (working_id p r sessionid rr)) = no_cookie (Cookie r (CookieName p))"
    by (auto simp: working_id_def no_cookie_def split: option.splits sum.splits)
  show "GetSession stores rr now p w r sessionid = Ret res \<longrightarrow>
        (gr_w res \<noteq> w \<longrightarrow> no_cookie (Cookie r (CookieName p)))
        \<and> (gr_session res = Some a \<longrightarrow>
             map_get (sessions (gr_mgr res)) (fst (working_id p r sessionid rr)) = Some a)"
  proof
    assume g: "GetSession stores rr now p w r sessionid = Ret res"
    obtain sid wc eo where wi: "working_id p r sessionid rr = (sid, wc, eo)"
      by (cases "working_id p r sessionid rr") auto
    from flag wi have wc: "wc = no_cookie (Cookie r (CookieName p))" by simp
    from g wi have "gr_w res \<noteq> w \<longrightarrow> wc"
      by (auto simp: GetSession_def split: option.splits sum.splits outcome.splits if_splits)
    moreover from g wi have "gr_session res = Some a \<longrightarrow> map_get (sessions (gr_mgr res)) sid = Some a"
      by (auto simp: GetSession_def touch_def on_store_def insert_new_def Let_def map_get_def
               split: option.splits sum.splits outcome.splits if_splits)
    ultimately show "(gr_w res \<noteq> w \<longrightarrow> no_cookie (Cookie r (CookieName p)))
        \<and> (gr_session res = Some a \<longrightarrow>
             map_get (sessions (gr_mgr res)) (fst (working_id p r sessionid rr)) = Some a)"
      using wc wi by simp
  qed
  show "rr_n rr = 24 \<longrightarrow> \<not> rr_err rr \<longrightarrow>
        sessionId rr = Inr (EncodeToString (take 24 (rr_bytes rr @ replicate 24 0)))
        \<and> length (EncodeToString (take 24 (rr_bytes rr @ replicate 24 0))) = 48
        \<and> set (EncodeToString (take 24 (rr_bytes rr @ replicate 24 0))) \<subseteq> set hextable
        \<and> (no_cookie (Cookie r (CookieName p)) \<longrightarrow> sessionid = [] \<longrightarrow>
             working_id p r sessionid rr
               = (EncodeToString (take 24 (rr_bytes rr @ replicate 24 0)), True, None))"
  proof (intro impI)
    assume ok: "rr_n rr = 24" "\<not> rr_err rr"
    then have s: "sessionId rr = Inr (EncodeToString (take 24 (rr_bytes rr @ replicate 24 0)))"
      by (rule sessionId_ok)
    have l: "length (EncodeToString (take 24 (rr_bytes rr @ replicate 24 0))) = 48"
      by (simp add: length_EncodeToString)
    from s l set_EncodeToString fb show "sessionId rr = Inr (EncodeToString (take 24 (rr_bytes rr @ replicate 24 0)))
        \<and> length (EncodeToString (take 24 (rr_bytes rr @ replicate 24 0))) = 48
        \<and> set (EncodeToString (take 24 (rr_bytes rr @ replicate 24 0))) \<subseteq> set hextable
        \<and> (no_cookie (Cookie r (CookieName p)) \<longrightarrow> sessionid = [] \<longrightarrow>
             working_id p r sessionid rr
               = (EncodeToString (take 24 (rr_bytes rr @ replicate 24 0)), True, None))"
      by simp
  qed
  show "rr_n rr \<noteq> 24 \<or> rr_err rr \<longrightarrow>
        sessionId rr = Inl ErrEntropy
        \<and> (no_cookie (Cookie r (CookieName p)) \<longrightarrow> sessionid = [] \<longrightarrow>
             working_id p r sessionid rr = ([], True, Some ErrEntropy))"
  proof
    assume "rr_n rr \<noteq> 24 \<or> rr_err rr"
    then have "sessionId rr = Inl ErrEntropy" by (rule sessionId_fail)
    with fb show "sessionId rr = Inl ErrEntropy
        \<and> (no_cookie (Cookie r (CookieName p)) \<longrightarrow> sessionid = [] \<longrightarrow>
             working_id p r sessionid rr = ([], True, Some ErrEntropy))"
      by simp
  qed
qed

theorem working_id_order_witness:
  "working_id (fresh_manager cfg0) [(''sid'', ''abc'')] ''other'' rr_fail = (''abc'', False, None)
   \<and> working_id (fresh_manager cfg0) [(''sid'', [])] ''other'' rr_fail = (''other'', True, None)
   \<and> working_id (fresh_manager cfg0) [] [] rr_fail = ([], True, Some ErrEntropy)
   \<and> GetSession stores0 rr_fail 1 (fresh_manager cfg0) [] [] ''a''
       = Ret \<lparr>gr_mgr = with_a cfg0, gr_w = [new_cookie (fresh_manager cfg0) ''a''],
              gr_r = [(''sid'', ''a'')], gr_session = Some 0, gr_err = None\<rparr>
   \<and> no_cookie (Cookie [] (CookieName (fresh_manager cfg0)))
   \<and> map_get (sessions (with_a cfg0)) ''a'' = Some 0
   \<and> sessionId rr_ok = Inr sid_ok
   \<and> length sid_ok = 48
   \<and> working_id (fresh_manager cfg0) [] [] rr_ok = (sid_ok, True, None)
   \<and> working_id (fresh_manager cfg0) [(''sid'', ''abc'')] [] rr_ok = (''abc'', False, None)
   \<and> GetSession stores0 rr_ok 1 (fresh_manager cfg0) [] [] []
       = Ret \<lparr>gr_mgr = (fresh_manager cfg0)\<lparr>sessions := Some [sid_ok \<mapsto> 0], lst := Some [0],
                   heap := [0 \<mapsto> \<lparr>ident = sid_ok, createTime = 1, activeTime = 1,
                                   released = False\<rparr>],
                   nalloc := 1\<rparr>,
              gr_w = [\<lparr>Name = ''sid'', Value = sid_ok, Path = ''/'', Domain_c = ''example.org'',
                       Expires = None, MaxAge = 0, HttpOnly = False\<rparr>],
              gr_r = [(''sid'', sid_ok)], gr_session = Some 0, gr_err = None\<rparr>"
proof -
  let ?p = "fresh_manager cfg0"
  let ?res = "\<lparr>gr_mgr = with_a cfg0, gr_w = [new_cookie ?p ''a''],
              gr_r = [(''sid'', ''a'')], gr_session = Some 0, gr_err = None\<rparr>"
  have c1: "Cookie [(''sid'', ''abc'')] (CookieName ?p) = Some (''sid'', ''abc'')"
    and c2: "no_cookie (Cookie [(''sid'', [])] (CookieName ?p))"
    and c3: "no_cookie (Cookie [] (CookieName ?p))"
    by (simp_all add: Cookie_def no_cookie_def fresh_manager_def cfg0_def)
  have g: "GetSession stores0 rr_fail 1 ?p [] [] ''a'' = Ret ?res"
    by (simp add: GetSession_def working_id_def Cookie_def fresh_manager_def cfg0_def map_get_def
          newSessionStore_def stores0_def memory_store_def insert_new_def Let_def store_Id_def
          with_a_def store_a_def SetCookie_def AddCookie_def QueryEscape_def escape_char_def
          shouldEscape_def)
  have w4: "working_id ?p [] ''a'' rr_fail = (''a'', True, None)"
    by (simp add: working_id_def Cookie_def)
  have e: "EncodeToString (take 24 (rr_bytes rr_ok @ replicate 24 0)) = sid_ok"
    by (simp add: rr_ok_def sid_ok_def EncodeToString_def hextable_def)
  have ok: "rr_n rr_ok = 24" "\<not> rr_err rr_ok"
    by (simp_all add: rr_ok_def)
  have q: "QueryEscape sid_ok = sid_ok"
    by (simp add: sid_ok_def QueryEscape_def escape_char_def shouldEscape_def)
  have "working_id ?p [(''sid'', ''abc'')] ''other'' rr_fail = (''abc'', False, None)"
    using working_id_order [where p = ?p and r = "[(''sid'', ''abc'')]" and n = "''sid''"
            and v = "''abc''" and sessionid = "''other''" and rr = rr_fail] c1
    by simp
  moreover have "working_id ?p [(''sid'', [])] ''other'' rr_fail = (''other'', True, None)"
    using working_id_order [where p = ?p and r = "[(''sid'', [])]" and sessionid = "''other''"
            and rr = rr_fail] c2
    by simp
  moreover have "working_id ?p [] [] rr_fail = ([], True, Some ErrEntropy)"
    using working_id_order [where p = ?p and r = "[]" and sessionid = "[]" and rr = rr_fail] c3
    by (simp add: rr_fail_def)
  moreover have "map_get (sessions (with_a cfg0)) ''a'' = Some 0"
    using working_id_order [where p = ?p and r = "[]" and sessionid = "''a''" and rr = rr_fail
            and stores = stores0 and now = 1 and w = "[]" and a = 0 and res = ?res] g w4
    by simp
  moreover have s: "sessionId rr_ok = Inr sid_ok \<and> length sid_ok = 48
      \<and> working_id ?p [] [] rr_ok = (sid_ok, True, None)"
  proof -
    let ?b = "take 24 (rr_bytes rr_ok @ replicate 24 0)"
    have "sessionId rr_ok = Inr (EncodeToString ?b) \<and> length (EncodeToString ?b) = 48
        \<and> working_id ?p [] [] rr_ok = (EncodeToString ?b, True, None)"
      using working_id_order [where p = ?p and r = "[]" and sessionid = "[]" and rr = rr_ok
              and n = "[]" and v = "[]" and stores = stores0 and now = 1 and w = "[]"
              and a = 0 and res = ?res] c3 ok
      by blast
    then show ?thesis by (simp only: e)
  qed
  moreover have "working_id ?p [(''sid'', ''abc'')] [] rr_ok = (''abc'', False, None)"
    using working_id_order [where p = ?p and r = "[(''sid'', ''abc'')]" and n = "''sid''"
            and v = "''abc''" and sessionid = "[]" and rr = rr_ok] c1
    by simp
  moreover have "GetSession stores0 rr_ok 1 ?p [] [] []
       = Ret \<lparr>gr_mgr = ?p\<lparr>sessions := Some [sid_ok \<mapsto> 0], lst := Some [0],
                   heap := [0 \<mapsto> \<lparr>ident = sid_ok, createTime = 1, activeTime = 1,
                                   released = False\<rparr>],
                   nalloc := 1\<rparr>,
              gr_w = [\<lparr>Name = ''sid'', Value = sid_ok, Path = ''/'', Domain_c = ''example.org'',
                       Expires = None, MaxAge = 0, HttpOnly = False\<rparr>],
              gr_r = [(''sid'', sid_ok)], gr_session = Some 0, gr_err = None\<rparr>"
  proof -
    have ne: "sid_ok \<noteq> []" by (simp add: sid_ok_def)
    from s have wi: "working_id ?p [] [] rr_ok = (sid_ok, True, None)" by simp
    show ?thesis
      by (simp only: GetSession_def wi)
         (simp add: q ne fresh_manager_def cfg0_def map_get_def
            newSessionStore_def stores0_def memory_store_def insert_new_def Let_def store_Id_def
            SetCookie_def AddCookie_def new_cookie_def)
  qed
  ultimately show ?thesis using g c3 by simp
qed

subsection \<open>SessionDestroy\<close>

text \<open>
  C7. With no cookie or an empty cookie value, \<^verbatim>\<open>SessionDestroy\<close> changes nothing
  and returns the empty identifier. With a non-empty value it returns what
  \<^verbatim>\<open>QueryUnescape\<close> gives for it (the empty string when the value is malformed),
  releases the store indexed under that identifier when there is one, and in both
  cases appends the clearing cookie to the response: empty value, expiry at the
  current time, \<^verbatim>\<open>MaxAge\<close> -1.
\<close>

theorem SessionDestroy_spec:
 "(no_cookie (Cookie r (CookieName p)) \<longrightarrow>
     SessionDestroy now p w r = Ret \<lparr>dr_mgr = p, dr_w = w, dr_sessionid = []\<rparr>)
  \<and> (Cookie r (CookieName p) = Some (n, v) \<longrightarrow> v \<noteq> [] \<longrightarrow>
       sid = (case QueryUnescape v of None \<Rightarrow> [] | Some u \<Rightarrow> u) \<longrightarrow>
       (map_get (sessions p) sid = None \<longrightarrow>
          SessionDestroy now p w r
            = Ret \<lparr>dr_mgr = p, dr_w = w @ [clear_cookie p now], dr_sessionid = sid\<rparr>)
     \<and> (map_get (sessions p) sid = Some a \<longrightarrow> heap p a = Some s \<longrightarrow>
          SessionDestroy now p w r
            = Ret \<lparr>dr_mgr = p\<lparr>heap := (heap p)(a \<mapsto> s\<lparr>released := True\<rparr>)\<rparr>,
                   dr_w = w @ [clear_cookie p now], dr_sessionid = sid\<rparr>))
  \<and> Name (clear_cookie p now) = CookieName p
  \<and> Value (clear_cookie p now) = []
  \<and> Expires (clear_cookie p now) = Some now
  \<and> MaxAge (clear_cookie p now) = - 1"
  by (auto simp: SessionDestroy_def no_cookie_def release_by_id_def on_store_def
        SetCookie_def store_Release_def clear_cookie_def Let_def)

theorem SessionDestroy_spec_witness:
  "SessionDestroy 7 (with_a cfg0) [] [] = Ret \<lparr>dr_mgr = with_a cfg0, dr_w = [], dr_sessionid = []\<rparr>
   \<and> SessionDestroy 7 (with_a cfg0) [] [(''sid'', ''b'')]
       = Ret \<lparr>dr_mgr = with_a cfg0, dr_w = [clear_cookie (with_a cfg0) 7], dr_sessionid = ''b''\<rparr>
   \<and> SessionDestroy 7 (with_a cfg0) [] [(''sid'', ''a'')]
       = Ret \<lparr>dr_mgr = (with_a cfg0)\<lparr>heap := (heap (with_a cfg0))(0 \<mapsto> store_a\<lparr>released := True\<rparr>)\<rparr>,
              dr_w = [clear_cookie (with_a cfg0) 7], dr_sessionid = ''a''\<rparr>
   \<and> SessionDestroy 7 (with_a cfg0) [] [(''sid'', ''%zz'')]
       = Ret \<lparr>dr_mgr = with_a cfg0, dr_w = [clear_cookie (with_a cfg0) 7], dr_sessionid = []\<rparr>"
proof -
  let ?p = "with_a cfg0"
  have n: "CookieName ?p = ''sid''"
    by (simp add: with_a_def fresh_manager_def cfg0_def)
  have m: "map_get (sessions ?p) ''a'' = Some 0" "map_get (sessions ?p) ''b'' = None"
    "map_get (sessions ?p) [] = None" "heap ?p 0 = Some store_a"
    by (simp_all add: with_a_def map_get_def)
  have u: "QueryUnescape ''a'' = Some ''a''" "QueryUnescape ''b'' = Some ''b''"
    "QueryUnescape ''%zz'' = None"
    by (simp_all add: ishex_def)
  show ?thesis
    using SessionDestroy_spec [where p = ?p and r = "[]" and now = 7 and w = "[]"]
          SessionDestroy_spec [where p = ?p and r = "[(''sid'', ''b'')]" and now = 7 and w = "[]"
            and n = "''sid''" and v = "''b''" and sid = "''b''"]
          SessionDestroy_spec [where p = ?p and r = "[(''sid'', ''a'')]" and now = 7 and w = "[]"
            and n = "''sid''" and v = "''a''" and sid = "''a''" and a = 0 and s = store_a]
          SessionDestroy_spec [where p = ?p and r = "[(''sid'', ''%zz'')]" and now = 7 and w = "[]"
            and n = "''sid''" and v = "''%zz''" and sid = "[]"]
    by (simp add: n m u Cookie_def no_cookie_def ishex_def)
qed

subsection \<open>Explicit release keeps the entry\<close>

text \<open>
  C9. When \<open>sid\<close> is indexed, \<^verbatim>\<open>SessionDestroyById\<close> (and \<^verbatim>\<open>SessionDestroy\<close> for a
  cookie naming \<open>sid\<close>) marks the store released and changes nothing else: the map
  and the list are as before. A following \<^verbatim>\<open>GetSessionById\<close> (or \<^verbatim>\<open>GetSession\<close>
  with that cookie) returns that same store, still released, and allocates no
  new one.
\<close>

theorem destroy_keeps_entry:
  assumes "map_get (sessions p) sid = Some a" and "heap p a = Some s" and "sid \<noteq> []"
  shows "\<exists>p1. SessionDestroyById p sid = Ret p1
           \<and> sessions p1 = sessions p \<and> lst p1 = lst p \<and> nalloc p1 = nalloc p
           \<and> heap p1 = (heap p)(a \<mapsto> s\<lparr>released := True\<rparr>)
           \<and> (\<exists>p2. GetSessionById stores now p1 sid = Ret (p2, Some a, None)
                 \<and> nalloc p2 = nalloc p \<and> sessions p2 = sessions p
                 \<and> heap p2 = (heap p)(a \<mapsto> s\<lparr>released := True, activeTime := now\<rparr>))
           \<and> (Cookie r (CookieName p) = Some (n, v) \<longrightarrow> v \<noteq> [] \<longrightarrow> QueryUnescape v = Some sid \<longrightarrow>
                (\<exists>w1. SessionDestroy now0 p w r
                        = Ret \<lparr>dr_mgr = p1, dr_w = w1, dr_sessionid = sid\<rparr>)
                \<and> (\<exists>p2. GetSession stores rr now p1 w2 r sessionid
                           = Ret \<lparr>gr_mgr = p2, gr_w = w2, gr_r = r, gr_session = Some a,
                                  gr_err = None\<rparr>
                         \<and> nalloc p2 = nalloc p \<and> sessions p2 = sessions p
                         \<and> heap p2 = (heap p)(a \<mapsto> s\<lparr>released := True, activeTime := now\<rparr>)))"
  using assms
  by (auto simp: SessionDestroyById_def release_by_id_def on_store_def store_Release_def
        GetSessionById_def touch_def store_Active_def SessionDestroy_def no_cookie_def Let_def
        GetSession_def working_id_def)

theorem destroy_keeps_entry_witness:
  "SessionDestroyById (with_a cfg0) ''a''
     = Ret ((with_a cfg0)\<lparr>heap := [0 \<mapsto> store_a\<lparr>released := True\<rparr>]\<rparr>)
   \<and> GetSessionById stores0 9 ((with_a cfg0)\<lparr>heap := [0 \<mapsto> store_a\<lparr>released := True\<rparr>]\<rparr>) ''a''
       = Ret ((with_a cfg0)\<lparr>heap := [0 \<mapsto> store_a\<lparr>released := True, activeTime := 9\<rparr>]\<rparr>,
              Some 0, None)"
proof -
  let ?p = "with_a cfg0"
  have h: "map_get (sessions ?p) ''a'' = Some 0" "heap ?p 0 = Some store_a" "''a'' \<noteq> []"
    by (simp_all add: with_a_def map_get_def)
  from destroy_keeps_entry [OF h, where stores = stores0 and now = 9]
  obtain p1 p2 where
    d: "SessionDestroyById ?p ''a'' = Ret p1"
    and g: "GetSessionById stores0 9 p1 ''a'' = Ret (p2, Some 0, None)"
    by blast
  have "SessionDestroyById ?p ''a'' = Ret (?p\<lparr>heap := [0 \<mapsto> store_a\<lparr>released := True\<rparr>]\<rparr>)"
    by (simp add: SessionDestroyById_def release_by_id_def on_store_def with_a_def map_get_def
          store_Release_def)
  with d have p1: "p1 = ?p\<lparr>heap := [0 \<mapsto> store_a\<lparr>released := True\<rparr>]\<rparr>" by simp
  have "GetSessionById stores0 9 (?p\<lparr>heap := [0 \<mapsto> store_a\<lparr>released := True\<rparr>]\<rparr>) ''a''
       = Ret (?p\<lparr>heap := [0 \<mapsto> store_a\<lparr>released := True, activeTime := 9\<rparr>]\<rparr>, Some 0, None)"
    by (simp add: GetSessionById_def touch_def on_store_def with_a_def map_get_def
          store_Active_def list_MoveToBack_def)
  with d p1 show ?thesis by simp
qed

subsection \<open>Eviction is never early\<close>

lemma wrap64_id: "in64 x \<Longrightarrow> wrap64 x = x"
  by (simp add: in64_def wrap64_def)

lemma gc_body_Evict:
  "gc_body clock k p sleep = Evict p1 (e, s, t) \<Longrightarrow>
   IdleTime p1 = IdleTime p \<and> wrap64 (activeTime s + IdleTime p) \<le> t \<and> t = clock k
   \<and> (\<exists>rest. lst p = Some (e # rest)) \<and> heap p e = Some s"
  by (auto simp: gc_body_def Let_def split: option.splits list.splits if_splits)

lemma gc_loop_log:
  "gc_loop clock k p log sleep = Ret (p1, log1, sleep1) \<Longrightarrow>
   IdleTime p1 = IdleTime p \<and>
   (\<forall>ev \<in> set log1. ev \<in> set log \<or>
      (wrap64 (activeTime (fst (snd ev)) + IdleTime p) \<le> snd (snd ev)
       \<and> (\<exists>j. snd (snd ev) = clock j)))"
proof (induction clock k p log sleep rule: gc_loop.induct)
  case (1 clock k p log sleep)
  show ?case
  proof (cases "destroied p")
    case True
    with "1.prems" show ?thesis by (simp add: gc_loop.simps)
  next
    case False
    show ?thesis
    proof (cases "gc_body clock k p sleep")
      case (Crash x)
      with False "1.prems" show ?thesis by (simp add: gc_loop.simps)
    next
      case (Break s1 k1)
      with False "1.prems" show ?thesis by (simp add: gc_loop.simps)
    next
      case (Evict p2 ev)
      obtain e s t where ev: "ev = (e, s, t)" by (cases ev)
      from Evict ev have b: "IdleTime p2 = IdleTime p" "wrap64 (activeTime s + IdleTime p) \<le> t"
        "t = clock k"
        using gc_body_Evict by blast+
      from False Evict "1.prems"
      have "gc_loop clock (Suc k) p2 (log @ [ev]) sleep = Ret (p1, log1, sleep1)"
        by (simp add: gc_loop.simps)
      from "1.IH" [OF False Evict this] b
      have i: "IdleTime p1 = IdleTime p"
        and a: "\<forall>x \<in> set log1. x \<in> set (log @ [ev]) \<or>
                 (wrap64 (activeTime (fst (snd x)) + IdleTime p) \<le> snd (snd x)
                  \<and> (\<exists>j. snd (snd x) = clock j))"
        by simp_all
      have "\<forall>x \<in> set log1. x \<in> set log \<or>
              (wrap64 (activeTime (fst (snd x)) + IdleTime p) \<le> snd (snd x)
               \<and> (\<exists>j. snd (snd x) = clock j))"
      proof
        fix x assume "x \<in> set log1"
        with a have "x \<in> set log \<or> x = ev \<or>
              (wrap64 (activeTime (fst (snd x)) + IdleTime p) \<le> snd (snd x)
               \<and> (\<exists>j. snd (snd x) = clock j))"
          by auto
        moreover have "wrap64 (activeTime (fst (snd ev)) + IdleTime p) \<le> snd (snd ev)
               \<and> (\<exists>j. snd (snd ev) = clock j)"
          using b ev by auto
        ultimately show "x \<in> set log \<or>
              (wrap64 (activeTime (fst (snd x)) + IdleTime p) \<le> snd (snd x)
               \<and> (\<exists>j. snd (snd x) = clock j))"
          by blast
      qed
      with i show ?thesis by simp
    qed
  qed
qed

text \<open>
  C1, as the code has it. Every eviction of a run of \<^verbatim>\<open>gc\<close> passed the comparison
  of the loop: the \<^verbatim>\<open>int64\<close> sum of the store's last-active time and the idle
  timeout was at most a clock reading of that run. When that sum does not leave the
  \<^verbatim>\<open>int64\<close> range, the reading (and so the time of release) is at least the
  last-active time plus the timeout.
\<close>

theorem gc_never_early:
  assumes "gc clock p = Ret res" and "(e, s, t) \<in> set (gc_released res)"
  shows "wrap64 (activeTime s + IdleTime p) \<le> t
         \<and> (\<exists>j. t = clock j)
         \<and> (in64 (activeTime s + IdleTime p) \<longrightarrow> activeTime s + IdleTime p \<le> t)"
proof -
  from assms(1) obtain p1 log1 sleep1
    where l: "gc_loop clock 0 p [] 10 = Ret (p1, log1, sleep1)" and r: "gc_released res = log1"
    by (auto simp: gc_def split: outcome.splits)
  from gc_loop_log [OF l] assms(2) r
  have "wrap64 (activeTime s + IdleTime p) \<le> t \<and> (\<exists>j. t = clock j)" by fastforce
  then show ?thesis by (auto simp: wrap64_id)
qed

theorem gc_never_early_witness:
  "gc (const_clock 5) (with_a cfg0)
     = Ret \<lparr>gc_mgr = (with_a cfg0)\<lparr>sessions := Some Map.empty, lst := Some [],
                                     heap := [0 \<mapsto> store_a\<lparr>released := True\<rparr>]\<rparr>,
            gc_released = [(0, store_a, 5)], gc_next = Some 10\<rparr>
   \<and> in64 (activeTime store_a + IdleTime (with_a cfg0))
   \<and> activeTime store_a + IdleTime (with_a cfg0) \<le> 5"
proof -
  have g: "gc (const_clock 5) (with_a cfg0)
     = Ret \<lparr>gc_mgr = (with_a cfg0)\<lparr>sessions := Some Map.empty, lst := Some [],
                                     heap := [0 \<mapsto> store_a\<lparr>released := True\<rparr>]\<rparr>,
            gc_released = [(0, store_a, 5)], gc_next = Some 10\<rparr>"
    by (simp add: gc_def gc_loop.simps gc_body_def with_a_def fresh_manager_def cfg0_def
          store_a_def wrap64_def const_clock_def store_Release_def map_delete_def list_Remove_def)
  have i: "in64 (activeTime store_a + IdleTime (with_a cfg0))"
    by (simp add: in64_def store_a_def with_a_def fresh_manager_def cfg0_def)
  from gc_never_early [OF g, of 0 store_a 5] i g show ?thesis by simp
qed

text \<open>
  The claim as stated fails when the sum wraps around: with the idle timeout
  \<open>2\<^sup>6\<^sup>3 - 1\<close>, the session created at time 1 is evicted by the run of \<^verbatim>\<open>gc\<close> at
  time 2.
\<close>

theorem gc_never_early_counterexample:
  "GetSessionById stores0 1 (fresh_manager cfg_max) ''a'' = Ret (with_a cfg_max, Some 0, None)
   \<and> gc (const_clock 2) (with_a cfg_max)
       = Ret \<lparr>gc_mgr = (with_a cfg_max)\<lparr>sessions := Some Map.empty, lst := Some [],
                               heap := [0 \<mapsto> store_a\<lparr>released := True\<rparr>]\<rparr>,
              gc_released = [(0, store_a, 2)], gc_next = Some 10\<rparr>
   \<and> 2 < activeTime store_a + IdleTime (with_a cfg_max)"
  by (simp add: GetSessionById_def fresh_manager_def map_get_def newSessionStore_def
      stores0_def cfg_max_def memory_store_def insert_new_def Let_def with_a_def store_a_def store_Id_def
      gc_def gc_loop.simps gc_body_def wrap64_def const_clock_def store_Release_def map_delete_def list_Remove_def)

subsection \<open>The invariants are kept by every operation\<close>

lemma wf_parts_update:
  assumes w: "wf_parts m xs h n" and h: "h a = Some s" and i: "ident s1 = ident s"
    and ys: "set ys = set xs" "distinct ys"
  shows "wf_parts m ys (h(a \<mapsto> s1)) n"
  unfolding wf_parts_def
proof (intro conjI ballI allI impI)
  show "distinct ys" by (rule ys)
next
  fix b assume "b \<in> set ys"
  with ys w obtain sb where b: "b < n" "h b = Some sb" "m (ident sb) = Some b"
    unfolding wf_parts_def by blast
  from b show "b < n" by simp
  show "\<exists>s. (h(a \<mapsto> s1)) b = Some s \<and> m (ident s) = Some b"
    using b h i by (cases "b = a") auto
next
  fix k b assume "m k = Some b"
  with w obtain sb where b: "b \<in> set xs" "h b = Some sb" "ident sb = k"
    unfolding wf_parts_def by blast
  from b ys show "b \<in> set ys" by simp
  show "\<exists>s. (h(a \<mapsto> s1)) b = Some s \<and> ident s = k"
    using b h i by (cases "b = a") auto
qed

lemma wf_parts_insert:
  assumes w: "wf_parts m xs h n" and f: "m sid = None" and i: "ident s = sid"
  shows "wf_parts (m(sid \<mapsto> n)) (xs @ [n]) (h(n \<mapsto> s)) (Suc n)"
  unfolding wf_parts_def
proof (intro conjI ballI allI impI)
  from w have lt: "\<forall>a \<in> set xs. a < n" unfolding wf_parts_def by blast
  then have nn: "n \<notin> set xs" by auto
  from w nn show "distinct (xs @ [n])" unfolding wf_parts_def by simp
  {
    fix b assume bs: "b \<in> set (xs @ [n])"
    show "b < Suc n" using bs lt by auto
    show "\<exists>t. (h(n \<mapsto> s)) b = Some t \<and> (m(sid \<mapsto> n)) (ident t) = Some b"
    proof (cases "b = n")
      case True
      then show ?thesis using i by simp
    next
      case False
      with bs have "b \<in> set xs" by simp
      with w obtain sb where b: "h b = Some sb" "m (ident sb) = Some b"
        unfolding wf_parts_def by blast
      with f have "ident sb \<noteq> sid" by auto
      with b False show ?thesis by simp
    qed
  }
  {
    fix k b assume kb: "(m(sid \<mapsto> n)) k = Some b"
    show "b \<in> set (xs @ [n])"
      using kb w unfolding wf_parts_def by (cases "k = sid") auto
    show "\<exists>t. (h(n \<mapsto> s)) b = Some t \<and> ident t = k"
    proof (cases "k = sid")
      case True
      with kb i show ?thesis by simp
    next
      case False
      with kb have "m k = Some b" by simp
      with w obtain sb where b: "b \<in> set xs" "h b = Some sb" "ident sb = k"
        unfolding wf_parts_def by blast
      with nn have "b \<noteq> n" by auto
      with b show ?thesis by simp
    qed
  }
qed

lemma wf_parts_evict:
  assumes w: "wf_parts m (a # rest) h n" and h: "h a = Some s" and i: "ident s1 = ident s"
  shows "wf_parts (m(ident s1 := None)) rest (h(a \<mapsto> s1)) n"
  unfolding wf_parts_def
proof (intro conjI ballI allI impI)
  from w have d: "a \<notin> set rest" "distinct rest" unfolding wf_parts_def by auto
  from w h have ma: "m (ident s) = Some a" unfolding wf_parts_def by fastforce
  show "distinct rest" by (rule d)
  {
    fix b assume bs: "b \<in> set rest"
    with w obtain sb where b: "b < n" "h b = Some sb" "m (ident sb) = Some b"
      unfolding wf_parts_def by fastforce
    from bs d have ne: "b \<noteq> a" by auto
    with b ma have "ident sb \<noteq> ident s" by auto
    show "b < n" by (rule b)
    show "\<exists>t. (h(a \<mapsto> s1)) b = Some t \<and> (m(ident s1 := None)) (ident t) = Some b"
      using b ne \<open>ident sb \<noteq> ident s\<close> i by simp
  }
  {
    fix k b assume kb: "(m(ident s1 := None)) k = Some b"
    then have k: "k \<noteq> ident s" "m k = Some b" using i by (auto split: if_splits)
    with w obtain sb where b: "b \<in> set (a # rest)" "h b = Some sb" "ident sb = k"
      unfolding wf_parts_def by blast
    with k h have ne: "b \<noteq> a" by auto
    with b show "b \<in> set rest" by simp
    show "\<exists>t. (h(a \<mapsto> s1)) b = Some t \<and> ident t = k" using b ne by simp
  }
qed

lemma remove1_last:
  assumes "distinct xs" and "a \<in> set xs" and "last xs = a"
  shows "remove1 a xs @ [a] = xs"
proof -
  from assms(2) have "xs \<noteq> []" by auto
  with assms(3) have xs: "xs = butlast xs @ [a]" by (metis append_butlast_last_id)
  with assms(1) have "distinct (butlast xs @ [a])" by simp
  then have "a \<notin> set (butlast xs)" by simp
  then have "remove1 a (butlast xs @ [a]) = butlast xs" by (simp add: remove1_append)
  with xs show ?thesis by simp
qed

lemma list_MoveToBack_Some:
  assumes "distinct xs" and "a \<in> set xs"
  shows "list_MoveToBack (Some xs) a = Some (remove1 a xs @ [a])"
  using assms by (simp add: list_MoveToBack_def remove1_last)

lemma act_same: "act (h(a \<mapsto> s)) a = activeTime s"
  by (simp add: act_def)

lemma act_other: "b \<noteq> a \<Longrightarrow> act (h(a \<mapsto> s)) b = act h b"
  by (simp add: act_def)

lemma map_act_other: "a \<notin> set ys \<Longrightarrow> map (act (h(a \<mapsto> s))) ys = map (act h) ys"
  by (induction ys) (auto simp: act_other)

lemma ordered_parts_touch:
  assumes o: "ordered_parts t xs h" and d: "distinct xs" and a: "a \<in> set xs"
    and t: "t \<le> now" and s: "activeTime s1 = now"
  shows "ordered_parts now (remove1 a xs @ [a]) (h(a \<mapsto> s1))"
proof -
  from d have na: "a \<notin> set (remove1 a xs)" by simp
  from o have "sorted (map (act h) xs)" by (simp add: ordered_parts_def)
  then have so: "sorted (map (act h) (remove1 a xs))" by (rule sorted_map_remove1)
  from o t have "\<forall>b \<in> set xs. act h b \<le> now" by (fastforce simp: ordered_parts_def)
  then have le1: "\<forall>b \<in> set (remove1 a xs). act h b \<le> now" by (meson notin_set_remove1)
  have "sorted (map (act (h(a \<mapsto> s1))) (remove1 a xs @ [a]))"
    using so le1 s by (simp add: map_act_other [OF na] sorted_append act_same)
  moreover have "\<forall>b \<in> set (remove1 a xs @ [a]). act (h(a \<mapsto> s1)) b \<le> now"
  proof
    fix b assume "b \<in> set (remove1 a xs @ [a])"
    then show "act (h(a \<mapsto> s1)) b \<le> now"
      using le1 s na by (cases "b = a") (auto simp: act_same act_other)
  qed
  ultimately show ?thesis by (simp add: ordered_parts_def)
qed

lemma ordered_parts_insert:
  assumes o: "ordered_parts t xs h" and n: "n \<notin> set xs"
    and t: "t \<le> now" and s: "activeTime s1 = now"
  shows "ordered_parts now (xs @ [n]) (h(n \<mapsto> s1))"
proof -
  from o have so: "sorted (map (act h) xs)" by (simp add: ordered_parts_def)
  from o t have le: "\<forall>b \<in> set xs. act h b \<le> now" by (fastforce simp: ordered_parts_def)
  have "sorted (map (act (h(n \<mapsto> s1))) (xs @ [n]))"
    using so le s by (simp add: map_act_other [OF n] sorted_append act_same)
  moreover have "\<forall>b \<in> set (xs @ [n]). act (h(n \<mapsto> s1)) b \<le> now"
  proof
    fix b assume "b \<in> set (xs @ [n])"
    then show "act (h(n \<mapsto> s1)) b \<le> now"
      using le s n by (cases "b = n") (auto simp: act_same act_other)
  qed
  ultimately show ?thesis by (simp add: ordered_parts_def)
qed

lemma ordered_parts_keep:
  assumes o: "ordered_parts t xs h" and h: "h a = Some s" and s: "activeTime s1 = activeTime s"
  shows "ordered_parts t xs (h(a \<mapsto> s1))"
proof -
  have "act (h(a \<mapsto> s1)) = act h"
    using h s by (auto simp: fun_eq_iff act_def)
  with o show ?thesis by (simp add: ordered_parts_def)
qed

lemma ordered_parts_evict:
  assumes o: "ordered_parts t (a # rest) h" and d: "a \<notin> set rest"
  shows "ordered_parts t rest (h(a \<mapsto> s1))"
proof -
  from o have "sorted (map (act h) rest)" and le: "\<forall>b \<in> set rest. act h b \<le> t"
    by (simp_all add: ordered_parts_def)
  then have "sorted (map (act (h(a \<mapsto> s1))) rest)" by (simp add: map_act_other [OF d])
  moreover have "\<forall>b \<in> set rest. act (h(a \<mapsto> s1)) b \<le> t"
  proof
    fix b assume b: "b \<in> set rest"
    with d have "b \<noteq> a" by auto
    with le b show "act (h(a \<mapsto> s1)) b \<le> t" by (simp add: act_other)
  qed
  ultimately show ?thesis by (simp add: ordered_parts_def)
qed

lemma ordered_parts_mono: "ordered_parts t xs h \<Longrightarrow> t \<le> t1 \<Longrightarrow> ordered_parts t1 xs h"
  by (fastforce simp: ordered_parts_def)

lemma wf_lookup:
  assumes "wf p" and "map_get (sessions p) k = Some a"
  obtains m xs s where "sessions p = Some m" and "lst p = Some xs"
    and "wf_parts m xs (heap p) (nalloc p)" and "m k = Some a" and "a \<in> set xs"
    and "distinct xs" and "heap p a = Some s" and "ident s = k"
proof -
  from assms(2) obtain m where m: "sessions p = Some m" "m k = Some a"
    by (auto simp: map_get_def split: option.splits)
  with assms(1) obtain xs where xs: "lst p = Some xs" "wf_parts m xs (heap p) (nalloc p)"
    by (auto simp: wf_def split: option.splits)
  from xs(2) m(2) obtain s where "a \<in> set xs" "distinct xs" "heap p a = Some s" "ident s = k"
    unfolding wf_parts_def by blast
  with m xs that show thesis by blast
qed

lemma touch_props:
  assumes w: "wf p" and g: "map_get (sessions p) k = Some a" and t: "touch p a now = Ret p1"
  shows "wf p1" and "list_back p1 = Some a" and "ordered t0 p \<Longrightarrow> t0 \<le> now \<Longrightarrow> ordered now p1"
proof -
  from w g obtain m xs s where f: "sessions p = Some m" "lst p = Some xs"
    "wf_parts m xs (heap p) (nalloc p)" "m k = Some a" "a \<in> set xs"
    "distinct xs" "heap p a = Some s" "ident s = k"
    by (rule wf_lookup)
  let ?s1 = "s\<lparr>activeTime := now\<rparr>"
  let ?ys = "remove1 a xs @ [a]"
  from t f have p1: "p1 = p\<lparr>heap := (heap p)(a \<mapsto> ?s1), lst := Some ?ys\<rparr>"
    by (simp add: touch_def on_store_def store_Active_def list_MoveToBack_Some)
  from f have ys: "set ?ys = set xs" "distinct ?ys" by auto
  have "wf_parts m ?ys ((heap p)(a \<mapsto> ?s1)) (nalloc p)"
    by (rule wf_parts_update [OF f(3) f(7) _ ys]) simp
  with w f show "wf p1" by (simp add: p1 wf_def)
  show "list_back p1 = Some a" by (simp add: p1 list_back_def)
  assume "ordered t0 p" and le: "t0 \<le> now"
  with f have "ordered_parts t0 xs (heap p)" by (simp add: ordered_def)
  from ordered_parts_touch [OF this f(6) f(5) le, of ?s1]
  show "ordered now p1" by (simp add: p1 ordered_def)
qed

lemma insert_new_props:
  assumes w: "wf p" and g: "map_get (sessions p) sid = None" and ne: "sid \<noteq> []"
    and i: "insert_new p sid s = Ret (p1, e)"
  shows "wf p1" and "list_back p1 = Some e"
    and "ordered t0 p \<Longrightarrow> t0 \<le> now \<Longrightarrow> activeTime s = now \<Longrightarrow> ordered now p1"
proof -
  from i obtain xs m where f: "lst p = Some xs" "sessions p = Some m"
    by (auto simp: insert_new_def Let_def split: option.splits)
  let ?n = "nalloc p"
  let ?s1 = "store_Id sid s"
  from i f have p1: "p1 = p\<lparr>heap := (heap p)(?n \<mapsto> ?s1), nalloc := Suc ?n,
      lst := Some (xs @ [?n]), sessions := Some (m(sid \<mapsto> ?n))\<rparr>" and e: "e = ?n"
    by (auto simp: insert_new_def Let_def)
  from w f have wp: "wf_parts m xs (heap p) ?n" by (simp add: wf_def)
  from g f have ms: "m sid = None" by (simp add: map_get_def)
  from ne have id: "ident ?s1 = sid" by (simp add: store_Id_def)
  from wf_parts_insert [OF wp ms id] w show "wf p1" by (simp add: p1 wf_def)
  show "list_back p1 = Some e" by (simp add: p1 e list_back_def)
  assume "ordered t0 p" and le: "t0 \<le> now" and a: "activeTime s = now"
  with f have o: "ordered_parts t0 xs (heap p)" by (simp add: ordered_def)
  from wp have nn: "?n \<notin> set xs" unfolding wf_parts_def by auto
  from a have "activeTime ?s1 = now" by (simp add: store_Id_def)
  from ordered_parts_insert [OF o nn le this]
  show "ordered now p1" by (simp add: p1 ordered_def)
qed

lemma release_by_id_props:
  assumes w: "wf p" and r: "release_by_id p sid = Ret p1"
  shows "wf p1" and "ordered t0 p \<Longrightarrow> ordered t0 p1"
proof -
  show "wf p1"
  proof (cases "map_get (sessions p) sid")
    case None
    with r w show ?thesis by (simp add: release_by_id_def)
  next
    case (Some a)
    with w obtain m xs s where f: "sessions p = Some m" "lst p = Some xs"
      "wf_parts m xs (heap p) (nalloc p)" "m sid = Some a" "a \<in> set xs"
      "distinct xs" "heap p a = Some s" "ident s = sid"
      by (rule wf_lookup)
    from r Some f have p1: "p1 = p\<lparr>heap := (heap p)(a \<mapsto> store_Release s)\<rparr>"
      by (simp add: release_by_id_def on_store_def)
    have "wf_parts m xs ((heap p)(a \<mapsto> store_Release s)) (nalloc p)"
      by (rule wf_parts_update [OF f(3) f(7) _ refl f(6)]) (simp add: store_Release_def)
    with w f show ?thesis by (simp add: p1 wf_def)
  qed
  assume o: "ordered t0 p"
  show "ordered t0 p1"
  proof (cases "map_get (sessions p) sid")
    case None
    with r o show ?thesis by (simp add: release_by_id_def)
  next
    case (Some a)
    with w obtain m xs s where f: "sessions p = Some m" "lst p = Some xs"
      "wf_parts m xs (heap p) (nalloc p)" "m sid = Some a" "a \<in> set xs"
      "distinct xs" "heap p a = Some s" "ident s = sid"
      by (rule wf_lookup)
    from r Some f have p1: "p1 = p\<lparr>heap := (heap p)(a \<mapsto> store_Release s)\<rparr>"
      by (simp add: release_by_id_def on_store_def)
    from o f have "ordered_parts t0 xs (heap p)" by (simp add: ordered_def)
    from ordered_parts_keep [OF this f(7), of "store_Release s"] f
    show ?thesis by (simp add: p1 ordered_def store_Release_def)
  qed
qed

lemma gc_body_props:
  assumes w: "wf p" and g: "gc_body clock k p sleep = Evict p1 ev"
  shows "wf p1" and "ordered t0 p \<Longrightarrow> ordered t0 p1"
proof -
  from g obtain a rest s where f: "lst p = Some (a # rest)" "heap p a = Some s"
    by (auto simp: gc_body_def split: option.splits list.splits if_splits)
  define s1 where "s1 = store_Release (case prepireRelease p of None \<Rightarrow> s | Some pf \<Rightarrow> pf s)"
  from g f have p1: "p1 = p\<lparr>heap := (heap p)(a \<mapsto> s1),
      sessions := map_delete (sessions p) (ident s1), lst := Some rest\<rparr>"
    by (auto simp: gc_body_def Let_def s1_def list_Remove_def split: if_splits)
  from w f obtain m where m: "sessions p = Some m" "wf_parts m (a # rest) (heap p) (nalloc p)"
    by (auto simp: wf_def split: option.splits)
  from w have id: "ident s1 = ident s"
    by (auto simp: s1_def store_Release_def wf_def keeps_ident_def split: option.splits)
  from wf_parts_evict [OF m(2) f(2) id] w m show "wf p1"
    by (simp add: p1 wf_def map_delete_def)
  assume "ordered t0 p"
  with f have o: "ordered_parts t0 (a # rest) (heap p)" by (simp add: ordered_def)
  from m(2) have "a \<notin> set rest" unfolding wf_parts_def by simp
  from ordered_parts_evict [OF o this] show "ordered t0 p1" by (simp add: p1 ordered_def)
qed

lemma gc_loop_props:
  "gc_loop clock k p log sleep = Ret (p1, log1, sleep1) \<Longrightarrow> wf p \<Longrightarrow>
   wf p1 \<and> (ordered t0 p \<longrightarrow> ordered t0 p1)"
proof (induction clock k p log sleep rule: gc_loop.induct)
  case (1 clock k p log sleep)
  show ?case
  proof (cases "destroied p")
    case True
    with "1.prems" show ?thesis by (simp add: gc_loop.simps)
  next
    case False
    show ?thesis
    proof (cases "gc_body clock k p sleep")
      case (Crash x)
      with False "1.prems" show ?thesis by (simp add: gc_loop.simps)
    next
      case (Break s1 k1)
      with False "1.prems" show ?thesis by (simp add: gc_loop.simps)
    next
      case (Evict p2 ev)
      from False Evict "1.prems"
      have l: "gc_loop clock (Suc k) p2 (log @ [ev]) sleep = Ret (p1, log1, sleep1)"
        by (simp add: gc_loop.simps)
      from gc_body_props [OF "1.prems"(2) Evict]
      have w2: "wf p2" and o2: "ordered t0 p \<Longrightarrow> ordered t0 p2" by auto
      from "1.IH" [OF False Evict l w2] o2 show ?thesis by blast
    qed
  qed
qed

lemma QueryUnescape_nonempty: "QueryUnescape v = Some [] \<Longrightarrow> v = []"
  by (cases v) (auto split: if_splits list.splits)

lemma sessionId_nonempty: "sessionId rr = Inr s \<Longrightarrow> s \<noteq> []"
proof -
  assume a: "sessionId rr = Inr s"
  let ?b = "take 24 (rr_bytes rr @ replicate 24 0)"
  have "length ?b = 24" by simp
  then obtain x xs where "?b = x # xs" by (cases ?b) auto
  with a show ?thesis
    by (auto simp: sessionId_def EncodeToString_def Let_def split: if_splits)
qed

lemma working_id_nonempty:
  "working_id p r sessionid rr = (sid, wc, None) \<Longrightarrow> sid \<noteq> []"
  by (auto simp: working_id_def split: option.splits if_splits sum.splits
           dest: QueryUnescape_nonempty sessionId_nonempty)

lemma ordered_mono: "ordered t p \<Longrightarrow> t \<le> t1 \<Longrightarrow> ordered t1 p"
  by (auto simp: ordered_def split: option.splits intro: ordered_parts_mono)

lemma stamps_new:
  "stamps stores \<Longrightarrow> newSessionStore stores ty cfg now = Inr s \<Longrightarrow> activeTime s = now"
  unfolding stamps_def newSessionStore_def by (auto split: option.splits)

lemma GetSession_props:
  assumes w: "wf p" and g: "GetSession stores rr now p w0 r sessionid = Ret res"
  shows "wf (gr_mgr res)"
    and "gr_session res = Some a \<Longrightarrow> list_back (gr_mgr res) = Some a"
    and "ordered t0 p \<Longrightarrow> t0 \<le> now \<Longrightarrow> stamps stores \<Longrightarrow> ordered now (gr_mgr res)"
proof -
  obtain sid wc eo where wi: "working_id p r sessionid rr = (sid, wc, eo)"
    by (cases "working_id p r sessionid rr") auto
  have "wf (gr_mgr res)
      \<and> (gr_session res = Some a \<longrightarrow> list_back (gr_mgr res) = Some a)
      \<and> (ordered t0 p \<longrightarrow> t0 \<le> now \<longrightarrow> stamps stores \<longrightarrow> ordered now (gr_mgr res))"
  proof (cases eo)
    case (Some e)
    with g wi have "gr_mgr res = p" "gr_session res = None" by (auto simp: GetSession_def)
    with w show ?thesis by (auto intro: ordered_mono)
  next
    case None
    with wi have ne: "sid \<noteq> []" by (auto dest: working_id_nonempty)
    show ?thesis
    proof (cases "map_get (sessions p) sid")
      case (Some sess)
      with g wi None obtain p1 where t: "touch p sess now = Ret p1"
        and r: "gr_mgr res = p1" "gr_session res = Some sess"
        by (auto simp: GetSession_def split: outcome.splits)
      from touch_props [OF w Some t] r show ?thesis by auto
    next
      case nf: None
      show ?thesis
      proof (cases "newSessionStore stores (StoreType p) (StoreConfig p) now")
        case (Inl e)
        with g wi None nf have "gr_mgr res = p" "gr_session res = None"
          by (auto simp: GetSession_def)
        with w show ?thesis by (auto intro: ordered_mono)
      next
        case (Inr s)
        with g wi None nf obtain p1 e where i: "insert_new p sid s = Ret (p1, e)"
          and r: "gr_mgr res = p1" "gr_session res = Some e"
          by (auto simp: GetSession_def split: outcome.splits if_splits option.splits)
        from insert_new_props [OF w nf ne i] r stamps_new [OF _ Inr] show ?thesis by auto
      qed
    qed
  qed
  then show "wf (gr_mgr res)"
    and "gr_session res = Some a \<Longrightarrow> list_back (gr_mgr res) = Some a"
    and "ordered t0 p \<Longrightarrow> t0 \<le> now \<Longrightarrow> stamps stores \<Longrightarrow> ordered now (gr_mgr res)"
    by auto
qed

lemma GetSessionById_props:
  assumes w: "wf p" and g: "GetSessionById stores now p sid = Ret (p1, so, eo)"
  shows "wf p1"
    and "so = Some a \<Longrightarrow> list_back p1 = Some a"
    and "ordered t0 p \<Longrightarrow> t0 \<le> now \<Longrightarrow> stamps stores \<Longrightarrow> ordered now p1"
proof -
  have "wf p1 \<and> (so = Some a \<longrightarrow> list_back p1 = Some a)
      \<and> (ordered t0 p \<longrightarrow> t0 \<le> now \<longrightarrow> stamps stores \<longrightarrow> ordered now p1)"
  proof (cases "sid = []")
    case True
    with g have "p1 = p" "so = None" by (auto simp: GetSessionById_def)
    with w show ?thesis by (auto intro: ordered_mono)
  next
    case ne: False
    show ?thesis
    proof (cases "map_get (sessions p) sid")
      case (Some sess)
      with g ne have t: "touch p sess now = Ret p1" and r: "so = Some sess"
        by (auto simp: GetSessionById_def split: outcome.splits)
      from touch_props [OF w Some t] r show ?thesis by auto
    next
      case nf: None
      show ?thesis
      proof (cases "newSessionStore stores (StoreType p) (StoreConfig p) now")
        case (Inl e)
        with g ne nf have "p1 = p" "so = None" by (auto simp: GetSessionById_def)
        with w show ?thesis by (auto intro: ordered_mono)
      next
        case (Inr s)
        with g ne nf obtain e where i: "insert_new p sid s = Ret (p1, e)" and r: "so = Some e"
          by (auto simp: GetSessionById_def split: outcome.splits)
        from insert_new_props [OF w nf ne i] r stamps_new [OF _ Inr] show ?thesis by auto
      qed
    qed
  qed
  then show "wf p1" and "so = Some a \<Longrightarrow> list_back p1 = Some a"
    and "ordered t0 p \<Longrightarrow> t0 \<le> now \<Longrightarrow> stamps stores \<Longrightarrow> ordered now p1"
    by auto
qed

lemma SessionUpdate_props:
  assumes w: "wf p" and g: "SessionUpdate now p sid = Ret p1"
  shows "wf p1"
    and "map_get (sessions p) sid = Some a \<Longrightarrow> list_back p1 = Some a"
    and "ordered t0 p \<Longrightarrow> t0 \<le> now \<Longrightarrow> ordered now p1"
proof -
  have "wf p1 \<and> (map_get (sessions p) sid = Some a \<longrightarrow> list_back p1 = Some a)
      \<and> (ordered t0 p \<longrightarrow> t0 \<le> now \<longrightarrow> ordered now p1)"
  proof (cases "map_get (sessions p) sid")
    case None
    with g have "p1 = p" by (simp add: SessionUpdate_def)
    with w None show ?thesis by (auto intro: ordered_mono)
  next
    case (Some sess)
    with g have t: "touch p sess now = Ret p1" by (simp add: SessionUpdate_def)
    from touch_props [OF w Some t] Some show ?thesis by auto
  qed
  then show "wf p1" and "map_get (sessions p) sid = Some a \<Longrightarrow> list_back p1 = Some a"
    and "ordered t0 p \<Longrightarrow> t0 \<le> now \<Longrightarrow> ordered now p1"
    by auto
qed

lemma SessionDestroy_props:
  assumes w: "wf p" and g: "SessionDestroy now p w0 r = Ret res"
  shows "wf (dr_mgr res)" and "ordered t0 p \<Longrightarrow> ordered t0 (dr_mgr res)"
proof -
  have "dr_mgr res = p \<or> (\<exists>sid. release_by_id p sid = Ret (dr_mgr res))"
    using g by (auto simp: SessionDestroy_def Let_def split: if_splits outcome.splits)
  with w release_by_id_props
  show "wf (dr_mgr res)" and "ordered t0 p \<Longrightarrow> ordered t0 (dr_mgr res)"
    by auto
qed

lemma gc_props:
  assumes w: "wf p" and g: "gc clock p = Ret res"
  shows "wf (gc_mgr res)" and "ordered t0 p \<Longrightarrow> ordered t0 (gc_mgr res)"
proof -
  from g obtain log1 sleep1 where "gc_loop clock 0 p [] 10 = Ret (gc_mgr res, log1, sleep1)"
    by (auto simp: gc_def split: outcome.splits)
  from gc_loop_props [OF this w]
  show "wf (gc_mgr res)" and "ordered t0 p \<Longrightarrow> ordered t0 (gc_mgr res)"
    by auto
qed

lemma step_wf:
  assumes w: "wf p" and ok: "op_ok x" and s: "step stores p x = Ret p1"
  shows "wf p1"
proof (cases x)
  case (OpGetSession rr now w0 r sessionid)
  with s w show ?thesis
    by (auto simp: step_def split: outcome.splits dest: GetSession_props(1))
next
  case (OpGetSessionById now sid)
  with s w show ?thesis
    by (auto simp: step_def split: outcome.splits dest: GetSessionById_props(1))
next
  case (OpSessionUpdate now sid)
  with s w show ?thesis by (auto simp: step_def dest: SessionUpdate_props(1))
next
  case (OpSessionDestroy now w0 r)
  with s w show ?thesis
    by (auto simp: step_def split: outcome.splits dest: SessionDestroy_props(1))
next
  case (OpSessionDestroyById sid)
  with s w show ?thesis
    by (auto simp: step_def SessionDestroyById_def dest: release_by_id_props(1))
next
  case (OpGc clock)
  with s w show ?thesis by (auto simp: step_def split: outcome.splits dest: gc_props(1))
next
  case OpDestroy
  with s w show ?thesis by (auto simp: step_def Destroy_def wf_def)
next
  case (OpSetPrepireRelease pf)
  with s w ok show ?thesis
    by (auto simp: step_def SetPrepireRelease_def wf_def op_ok_def split: option.splits)
qed

lemma step_ordered:
  assumes w: "wf p" and o: "ordered t p" and st: "stamps stores"
    and s: "step stores p x = Ret p1"
  shows "case op_time x of None \<Rightarrow> ordered t p1 | Some now \<Rightarrow> t \<le> now \<longrightarrow> ordered now p1"
proof (cases x)
  case (OpGetSession rr now w0 r sessionid)
  with s w o st show ?thesis
    by (auto simp: step_def op_time_def split: outcome.splits dest: GetSession_props(3))
next
  case (OpGetSessionById now sid)
  with s w o st show ?thesis
    by (auto simp: step_def op_time_def split: outcome.splits dest: GetSessionById_props(3))
next
  case (OpSessionUpdate now sid)
  with s w o show ?thesis by (auto simp: step_def op_time_def dest: SessionUpdate_props(3))
next
  case (OpSessionDestroy now w0 r)
  with s w o show ?thesis
    by (auto simp: step_def op_time_def split: outcome.splits dest: SessionDestroy_props(2))
next
  case (OpSessionDestroyById sid)
  with s w o show ?thesis
    by (auto simp: step_def op_time_def SessionDestroyById_def dest: release_by_id_props(2))
next
  case (OpGc clock)
  with s w o show ?thesis
    by (auto simp: step_def op_time_def split: outcome.splits dest: gc_props(2))
next
  case OpDestroy
  with s show ?thesis by (auto simp: step_def op_time_def Destroy_def ordered_def)
next
  case (OpSetPrepireRelease pf)
  with s o show ?thesis
    by (auto simp: step_def op_time_def SetPrepireRelease_def ordered_def split: option.splits)
qed

lemma run_wf:
  "wf p \<Longrightarrow> list_all op_ok xs \<Longrightarrow> run stores p xs = Ret p1 \<Longrightarrow> wf p1"
proof (induction xs arbitrary: p)
  case Nil
  then show ?case by simp
next
  case (Cons x xs)
  from Cons.prems(3) obtain p2 where s: "step stores p x = Ret p2" and r: "run stores p2 xs = Ret p1"
    by (auto split: outcome.splits)
  from Cons.prems have "wf p2" using s by (auto intro: step_wf)
  with Cons.IH Cons.prems(2) r show ?case by simp
qed

lemma run_ordered:
  "wf p \<Longrightarrow> ordered t p \<Longrightarrow> stamps stores \<Longrightarrow> list_all op_ok xs \<Longrightarrow> times_ok t xs \<Longrightarrow>
   run stores p xs = Ret p1 \<Longrightarrow> \<exists>t1. ordered t1 p1"
proof (induction xs arbitrary: p t)
  case Nil
  then show ?case by auto
next
  case (Cons x xs)
  from Cons.prems(6) obtain p2 where s: "step stores p x = Ret p2" and r: "run stores p2 xs = Ret p1"
    by (auto split: outcome.splits)
  from Cons.prems have w2: "wf p2" using s by (auto intro: step_wf)
  from Cons.prems(4) have ok: "list_all op_ok xs" by simp
  note so = step_ordered [OF Cons.prems(1) Cons.prems(2) Cons.prems(3) s]
  show ?case
  proof (cases "op_time x")
    case None
    with so Cons.prems(5) have "ordered t p2" "times_ok t xs" by auto
    from Cons.IH [OF w2 this(1) Cons.prems(3) ok this(2) r] show ?thesis .
  next
    case (Some now)
    with so Cons.prems(5) have "ordered now p2" "times_ok now xs" by auto
    from Cons.IH [OF w2 this(1) Cons.prems(3) ok this(2) r] show ?thesis .
  qed
qed

lemma wf_fresh: "wf (fresh_manager c)"
  by (simp add: wf_def fresh_manager_def keeps_ident_def wf_parts_def)

lemma live_fresh: "live (fresh_manager c)"
  by (simp add: live_def fresh_manager_def)

lemma ordered_fresh: "ordered t (fresh_manager c)"
  by (simp add: ordered_def fresh_manager_def ordered_parts_def)

lemma NewSessionManager_fresh:
  "NewSessionManager clock (Decoded c) = Ret (Some g) \<Longrightarrow> gc_mgr g = fresh_manager c"
  by (auto simp: NewSessionManager_def gc_def gc_loop.simps gc_body_def fresh_manager_def
           split: outcome.splits)

lemma wf_stores_of:
  assumes "wf p" and "lst p = Some xs"
  shows "stores_of p = map (\<lambda>a. the (heap p a)) xs" and "\<forall>a \<in> set xs. heap p a \<noteq> None"
proof -
  from assms obtain m where "wf_parts m xs (heap p) (nalloc p)"
    by (auto simp: wf_def split: option.splits)
  then show n: "\<forall>a \<in> set xs. heap p a \<noteq> None" unfolding wf_parts_def by fastforce
  then have "filter (\<lambda>a. heap p a \<noteq> None) xs = xs" by simp
  with assms(2) show "stores_of p = map (\<lambda>a. the (heap p a)) xs"
    by (simp add: stores_of_def List.map_filter_def comp_def)
qed

lemma wf_ids: "wf p \<Longrightarrow> key_ids p = list_ids p"
proof (cases "lst p")
  case None
  assume "wf p"
  with None show ?thesis
    by (auto simp: wf_def key_ids_def list_ids_def stores_of_def split: option.splits)
next
  case (Some xs)
  assume w: "wf p"
  with Some obtain m where m: "sessions p = Some m" "wf_parts m xs (heap p) (nalloc p)"
    by (auto simp: wf_def split: option.splits)
  from wf_stores_of [OF w Some] have so: "stores_of p = map (\<lambda>a. the (heap p a)) xs" by simp
  show ?thesis
  proof (intro set_eqI iffI)
    fix k assume "k \<in> key_ids p"
    with m obtain a where "m k = Some a" by (auto simp: key_ids_def)
    with m(2) obtain s where "a \<in> set xs" "heap p a = Some s" "ident s = k"
      unfolding wf_parts_def by blast
    then show "k \<in> list_ids p" by (force simp: list_ids_def so)
  next
    fix k assume "k \<in> list_ids p"
    then obtain a where a: "a \<in> set xs" "k = ident (the (heap p a))"
      by (auto simp: list_ids_def so)
    with m(2) obtain s where "heap p a = Some s" "m (ident s) = Some a"
      unfolding wf_parts_def by blast
    with a m show "k \<in> key_ids p" by (auto simp: key_ids_def)
  qed
qed

lemma wf_ordered_sorted:
  assumes w: "wf p" and o: "ordered t p"
  shows "sorted (map activeTime (stores_of p))" and "length (stores_of p) = list_len p"
proof -
  have "sorted (map activeTime (stores_of p)) \<and> length (stores_of p) = list_len p"
  proof (cases "lst p")
    case None
    then show ?thesis by (simp add: stores_of_def list_len_def)
  next
    case (Some xs)
    from wf_stores_of [OF w Some]
    have so: "stores_of p = map (\<lambda>a. the (heap p a)) xs" and n: "\<forall>a \<in> set xs. heap p a \<noteq> None"
      by simp_all
    from n have e: "map activeTime (stores_of p) = map (act (heap p)) xs"
      by (auto simp: so act_def)
    from o Some have "sorted (map (act (heap p)) xs)"
      by (simp add: ordered_def ordered_parts_def)
    then have "sorted (map activeTime (stores_of p))" by (simp only: e)
    moreover from Some have "length (stores_of p) = list_len p" by (simp add: so list_len_def)
    ultimately show ?thesis by simp
  qed
  then show "sorted (map activeTime (stores_of p))" and "length (stores_of p) = list_len p"
    by auto
qed

subsection \<open>No operation on a live manager panics\<close>

lemma wf_live:
  assumes "wf p" and "live p"
  obtains m xs where "sessions p = Some m" and "lst p = Some xs"
    and "wf_parts m xs (heap p) (nalloc p)"
  using assms by (auto simp: wf_def live_def split: option.splits)

lemma touch_returns:
  assumes w: "wf p" and g: "map_get (sessions p) k = Some a"
  shows "\<exists>p1. touch p a now = Ret p1 \<and> live p1"
proof -
  from w g obtain m xs s where f: "sessions p = Some m" "lst p = Some xs" "heap p a = Some s"
    by (rule wf_lookup)
  then show ?thesis by (simp add: touch_def on_store_def live_def)
qed

lemma insert_new_returns:
  assumes w: "wf p" and l: "live p"
  shows "\<exists>p1 e. insert_new p sid s = Ret (p1, e) \<and> live p1"
proof -
  from w l obtain m xs where "sessions p = Some m" "lst p = Some xs" by (rule wf_live)
  then show ?thesis by (simp add: insert_new_def Let_def live_def)
qed

lemma release_by_id_returns:
  assumes w: "wf p"
  shows "\<exists>p1. release_by_id p sid = Ret p1 \<and> (live p \<longrightarrow> live p1)"
proof (cases "map_get (sessions p) sid")
  case None
  then show ?thesis by (simp add: release_by_id_def)
next
  case (Some a)
  with w obtain m xs s where "sessions p = Some m" "lst p = Some xs" "heap p a = Some s"
    by (rule wf_lookup)
  with Some show ?thesis by (simp add: release_by_id_def on_store_def live_def)
qed

lemma gc_body_live:
  assumes w: "wf p" and l: "live p"
  shows "gc_body clock k p sleep \<noteq> Crash x"
    and "gc_body clock k p sleep = Evict p1 ev \<Longrightarrow> live p1"
proof -
  from w l obtain m xs where f: "sessions p = Some m" "lst p = Some xs"
    "wf_parts m xs (heap p) (nalloc p)"
    by (rule wf_live)
  then have h: "\<forall>a \<in> set xs. heap p a \<noteq> None" unfolding wf_parts_def by fastforce
  from f h show "gc_body clock k p sleep \<noteq> Crash x"
    by (auto simp: gc_body_def Let_def split: list.splits option.splits)
  assume "gc_body clock k p sleep = Evict p1 ev"
  with f show "live p1"
    by (auto simp: gc_body_def Let_def live_def map_delete_def
             split: list.splits option.splits if_splits)
qed

lemma gc_loop_returns:
  "wf p \<Longrightarrow> live p \<Longrightarrow>
   \<exists>p1 log1 sleep1. gc_loop clock k p log sleep = Ret (p1, log1, sleep1) \<and> live p1"
proof (induction clock k p log sleep rule: gc_loop.induct)
  case (1 clock k p log sleep)
  show ?case
  proof (cases "destroied p")
    case True
    with "1.prems" show ?thesis by (simp add: gc_loop.simps)
  next
    case False
    show ?thesis
    proof (cases "gc_body clock k p sleep")
      case (Crash x)
      with gc_body_live(1) [OF "1.prems"] show ?thesis by blast
    next
      case (Break s1 k1)
      with False "1.prems" show ?thesis by (simp add: gc_loop.simps)
    next
      case (Evict p2 ev)
      from gc_body_props(1) [OF "1.prems"(1) Evict] have w2: "wf p2" .
      from gc_body_live(2) [OF "1.prems" Evict] have l2: "live p2" .
      from "1.IH" [OF False Evict w2 l2] False Evict show ?thesis
        by (simp add: gc_loop.simps)
    qed
  qed
qed

lemma working_id_flag:
  "working_id p r sessionid rr = (sid, False, eo) \<Longrightarrow> \<exists>c. Cookie r (CookieName p) = Some c"
  by (auto simp: working_id_def split: option.splits if_splits sum.splits)

lemma GetSession_returns:
  assumes w: "wf p" and l: "live p"
  shows "\<exists>res. GetSession stores rr now p w0 r sessionid = Ret res \<and> live (gr_mgr res)"
proof -
  obtain sid wc eo where wi: "working_id p r sessionid rr = (sid, wc, eo)"
    by (cases "working_id p r sessionid rr") auto
  show ?thesis
  proof (cases eo)
    case (Some e)
    with wi l show ?thesis by (simp add: GetSession_def)
  next
    case None
    show ?thesis
    proof (cases "map_get (sessions p) sid")
      case (Some sess)
      from touch_returns [OF w Some] obtain p1 where "touch p sess now = Ret p1" "live p1"
        by blast
      with wi None Some show ?thesis by (simp add: GetSession_def)
    next
      case nf: None
      show ?thesis
      proof (cases "newSessionStore stores (StoreType p) (StoreConfig p) now")
        case (Inl e)
        with wi None nf l show ?thesis by (simp add: GetSession_def)
      next
        case (Inr s)
        from insert_new_returns [OF w l] obtain p1 e
          where i: "insert_new p sid s = Ret (p1, e)" "live p1" by blast
        show ?thesis
        proof (cases wc)
          case True
          with wi None nf Inr i show ?thesis by (simp add: GetSession_def)
        next
          case False
          with wi obtain c where "Cookie r (CookieName p) = Some c"
            by (auto dest: working_id_flag)
          with False wi None nf Inr i show ?thesis by (simp add: GetSession_def)
        qed
      qed
    qed
  qed
qed

lemma GetSessionById_returns:
  assumes w: "wf p" and l: "live p"
  shows "\<exists>res. GetSessionById stores now p sid = Ret res \<and> live (fst res)"
proof (cases "sid = []")
  case True
  with l show ?thesis by (simp add: GetSessionById_def)
next
  case ne: False
  show ?thesis
  proof (cases "map_get (sessions p) sid")
    case (Some sess)
    from touch_returns [OF w Some] obtain p1 where "touch p sess now = Ret p1" "live p1"
      by blast
    with ne Some show ?thesis by (simp add: GetSessionById_def)
  next
    case nf: None
    show ?thesis
    proof (cases "newSessionStore stores (StoreType p) (StoreConfig p) now")
      case (Inl e)
      with ne nf l show ?thesis by (simp add: GetSessionById_def)
    next
      case (Inr s)
      from insert_new_returns [OF w l] obtain p1 e
        where "insert_new p sid s = Ret (p1, e)" "live p1" by blast
      with ne nf Inr show ?thesis by (simp add: GetSessionById_def)
    qed
  qed
qed

lemma step_returns:
  assumes w: "wf p" and l: "live p" and d: "x \<noteq> OpDestroy"
  shows "\<exists>p1. step stores p x = Ret p1 \<and> live p1"
proof (cases x)
  case (OpGetSession rr now w0 r sessionid)
  from GetSession_returns [OF w l, of stores rr now w0 r sessionid]
  show ?thesis by (auto simp: step_def OpGetSession)
next
  case (OpGetSessionById now sid)
  from GetSessionById_returns [OF w l, of stores now sid]
  show ?thesis by (auto simp: step_def OpGetSessionById)
next
  case (OpSessionUpdate now sid)
  show ?thesis
  proof (cases "map_get (sessions p) sid")
    case None
    with l show ?thesis by (simp add: step_def OpSessionUpdate SessionUpdate_def)
  next
    case (Some a)
    from touch_returns [OF w Some, of now] Some
    show ?thesis by (auto simp: step_def OpSessionUpdate SessionUpdate_def)
  qed
next
  case (OpSessionDestroy now w0 r)
  show ?thesis
  proof (cases "no_cookie (Cookie r (CookieName p))")
    case True
    with l show ?thesis by (simp add: step_def OpSessionDestroy SessionDestroy_def)
  next
    case False
    let ?sid = "case QueryUnescape (snd (the (Cookie r (CookieName p)))) of None \<Rightarrow> [] | Some s \<Rightarrow> s"
    from release_by_id_returns [OF w, of ?sid] l obtain p1
      where "release_by_id p ?sid = Ret p1" "live p1" by blast
    with False show ?thesis by (simp add: step_def OpSessionDestroy SessionDestroy_def Let_def)
  qed
next
  case (OpSessionDestroyById sid)
  from release_by_id_returns [OF w, of sid] l
  show ?thesis by (auto simp: step_def OpSessionDestroyById SessionDestroyById_def)
next
  case (OpGc clock)
  from gc_loop_returns [OF w l, of clock 0 "[]" 10]
  show ?thesis by (auto simp: step_def OpGc gc_def)
next
  case OpDestroy
  with d show ?thesis by simp
next
  case (OpSetPrepireRelease pf)
  with l show ?thesis by (simp add: step_def SetPrepireRelease_def live_def)
qed

lemma run_returns:
  "wf p \<Longrightarrow> live p \<Longrightarrow> list_all op_ok xs \<Longrightarrow> OpDestroy \<notin> set xs \<Longrightarrow>
   \<exists>p1. run stores p xs = Ret p1"
proof (induction xs arbitrary: p)
  case Nil
  then show ?case by simp
next
  case (Cons x xs)
  from Cons.prems have "x \<noteq> OpDestroy" by auto
  from step_returns [OF Cons.prems(1) Cons.prems(2) this, of stores]
  obtain p2 where s: "step stores p x = Ret p2" and l2: "live p2" by blast
  from Cons.prems s have w2: "wf p2" by (auto intro: step_wf)
  from Cons.IH [OF w2 l2] Cons.prems s show ?case by simp
qed

subsection \<open>The concrete run\<close>

lemma NewSessionManager_cfg0:
  "NewSessionManager (const_clock 0) (Decoded cfg0)
     = Ret (Some \<lparr>gc_mgr = fresh_manager cfg0, gc_released = [], gc_next = Some 10\<rparr>)"
  by (simp add: NewSessionManager_def gc_def gc_loop.simps gc_body_def fresh_manager_def)

lemma run_ops0: "run stores0 (fresh_manager cfg0) ops0 = Ret after_ops0"
  by (simp add: ops0_def after_ops0_def step_def GetSessionById_def SessionUpdate_def
        SetPrepireRelease_def SessionDestroyById_def release_by_id_def touch_def on_store_def insert_new_def
        newSessionStore_def stores0_def memory_store_def store_Id_def store_Active_def
        store_Release_def list_MoveToBack_def map_get_def map_delete_def list_Remove_def
        gc_def gc_loop.simps gc_body_def wrap64_def const_clock_def fresh_manager_def cfg0_def
        store_a_def store_b_def store_c_def Let_def numeral_2_eq_2 numeral_3_eq_3)

lemma stamps_stores0: "stamps stores0"
  by (auto simp: stamps_def stores0_def memory_store_def split: if_splits)

lemma ops0_ok: "list_all op_ok ops0"
  by (simp add: ops0_def op_ok_def keeps_ident_def store_Release_def)

lemma ops0_times: "times_ok 0 ops0"
  by (simp add: ops0_def op_time_def)

lemma stores_of_after_ops0: "stores_of after_ops0 = [store_c, store_a\<lparr>activeTime := 4\<rparr>]"
  by (simp add: stores_of_def after_ops0_def List.map_filter_def)

subsection \<open>The map and the list hold the same identifiers\<close>

text \<open>
  C4. In every state that a newly built manager reaches through calls of
  \<^verbatim>\<open>GetSession\<close>, \<^verbatim>\<open>GetSessionById\<close>, \<^verbatim>\<open>SessionUpdate\<close>, \<^verbatim>\<open>SessionDestroy\<close>,
  \<^verbatim>\<open>SessionDestroyById\<close> and \<^verbatim>\<open>gc\<close> (and of \<^verbatim>\<open>Destroy\<close> and
  \<^verbatim>\<open>SetPrepireRelease\<close> with a callback that leaves identifiers alone), the keys
  of the map are the identifiers of the stores held by the list. A sequence of calls
  without \<^verbatim>\<open>Destroy\<close> reaches such a state: none of its calls panics.
\<close>

theorem bijection_invariant:
  assumes "NewSessionManager clock (Decoded c) = Ret (Some g)" and "list_all op_ok xs"
  shows "(run stores (gc_mgr g) xs = Ret p \<longrightarrow> key_ids p = list_ids p)
         \<and> (OpDestroy \<notin> set xs \<longrightarrow> (\<exists>q. run stores (gc_mgr g) xs = Ret q))"
proof (intro conjI impI)
  from assms(1) have w0: "wf (gc_mgr g)" and l0: "live (gc_mgr g)"
    by (simp_all add: NewSessionManager_fresh wf_fresh live_fresh)
  {
    assume "run stores (gc_mgr g) xs = Ret p"
    with w0 assms(2) have "wf p" by (rule run_wf)
    then show "key_ids p = list_ids p" by (rule wf_ids)
  }
  {
    assume "OpDestroy \<notin> set xs"
    with w0 l0 assms(2) show "\<exists>q. run stores (gc_mgr g) xs = Ret q" by (rule run_returns)
  }
qed

theorem bijection_invariant_witness:
  "run stores0 (fresh_manager cfg0) ops0 = Ret after_ops0
   \<and> key_ids after_ops0 = {''a'', ''c''}
   \<and> list_ids after_ops0 = {''a'', ''c''}"
proof -
  have r: "run stores0 (gc_mgr \<lparr>gc_mgr = fresh_manager cfg0, gc_released = [], gc_next = Some 10\<rparr>)
             ops0 = Ret after_ops0"
    by (simp add: run_ops0)
  have k: "key_ids after_ops0 = {''a'', ''c''}"
    by (auto simp: key_ids_def after_ops0_def split: if_splits)
  from bijection_invariant [OF NewSessionManager_cfg0 ops0_ok, of stores0 after_ops0] r k run_ops0
  show ?thesis by simp
qed

subsection \<open>The list is ordered by recency\<close>

text \<open>
  C5. Let the factories stamp the last-active time of a new store with the time
  they read, and let the times at which sessions are created or touched not
  decrease. Then in every state that a newly built manager reaches, the stores of
  the list, front first, are sorted by ascending last-active time (and every element
  of the list holds a store); and a call of \<^verbatim>\<open>GetSession\<close> or
  \<^verbatim>\<open>GetSessionById\<close> that returns a session, or of \<^verbatim>\<open>SessionUpdate\<close> for an
  indexed identifier, leaves that session's element at the back of the list.
\<close>

theorem recency_order:
  assumes "NewSessionManager clock (Decoded c) = Ret (Some g)"
    and "run stores (gc_mgr g) xs = Ret p"
    and "list_all op_ok xs" and "times_ok t0 xs" and "stamps stores"
  shows "sorted (map activeTime (stores_of p)) \<and> length (stores_of p) = list_len p
     \<and> (GetSession stores rr now p w r sessionid = Ret res \<longrightarrow> gr_session res = Some a \<longrightarrow>
          list_back (gr_mgr res) = Some a)
     \<and> (GetSessionById stores now p sid = Ret (p1, Some a, eo) \<longrightarrow> list_back p1 = Some a)
     \<and> (map_get (sessions p) sid = Some a \<longrightarrow> SessionUpdate now p sid = Ret p2 \<longrightarrow>
          list_back p2 = Some a)"
proof -
  from assms(1) have w0: "wf (gc_mgr g)" and o0: "ordered t0 (gc_mgr g)"
    by (simp_all add: NewSessionManager_fresh wf_fresh ordered_fresh)
  from w0 assms(3) assms(2) have w: "wf p" by (rule run_wf)
  from run_ordered [OF w0 o0 assms(5) assms(3) assms(4) assms(2)]
  obtain t1 where o: "ordered t1 p" by blast
  from wf_ordered_sorted [OF w o]
  have "sorted (map activeTime (stores_of p))" "length (stores_of p) = list_len p" by simp_all
  moreover have "GetSession stores rr now p w r sessionid = Ret res \<longrightarrow> gr_session res = Some a \<longrightarrow>
          list_back (gr_mgr res) = Some a"
    using GetSession_props(2) [OF w] by blast
  moreover have "GetSessionById stores now p sid = Ret (p1, Some a, eo) \<longrightarrow> list_back p1 = Some a"
    using GetSessionById_props(2) [OF w] by blast
  moreover have "map_get (sessions p) sid = Some a \<longrightarrow> SessionUpdate now p sid = Ret p2 \<longrightarrow>
          list_back p2 = Some a"
    using SessionUpdate_props(2) [OF w] by blast
  ultimately show ?thesis by simp
qed

theorem recency_order_witness:
  "run stores0 (fresh_manager cfg0) ops0 = Ret after_ops0
   \<and> map activeTime (stores_of after_ops0) = [3, 4]
   \<and> sorted (map activeTime (stores_of after_ops0))
   \<and> SessionUpdate 5 after_ops0 ''c''
       = Ret (after_ops0\<lparr>heap := (heap after_ops0)(2 \<mapsto> store_c\<lparr>activeTime := 5\<rparr>),
                         lst := Some [0, 2]\<rparr>)
   \<and> list_back (after_ops0\<lparr>heap := (heap after_ops0)(2 \<mapsto> store_c\<lparr>activeTime := 5\<rparr>),
                            lst := Some [0, 2]\<rparr>) = Some 2"
proof -
  let ?p2 = "after_ops0\<lparr>heap := (heap after_ops0)(2 \<mapsto> store_c\<lparr>activeTime := 5\<rparr>),
                        lst := Some [0, 2]\<rparr>"
  have r: "run stores0 (gc_mgr \<lparr>gc_mgr = fresh_manager cfg0, gc_released = [], gc_next = Some 10\<rparr>)
             ops0 = Ret after_ops0"
    by (simp add: run_ops0)
  have m: "map_get (sessions after_ops0) ''c'' = Some 2"
    by (simp add: after_ops0_def map_get_def)
  have u: "SessionUpdate 5 after_ops0 ''c'' = Ret ?p2"
    by (simp add: SessionUpdate_def touch_def on_store_def after_ops0_def map_get_def
          store_Active_def list_MoveToBack_def)
  have t: "map activeTime (stores_of after_ops0) = [3, 4]"
    by (simp add: stores_of_after_ops0 store_a_def store_c_def)
  from recency_order [OF NewSessionManager_cfg0 r ops0_ok ops0_times stamps_stores0,
          where sid = "''c''" and a = 2 and now = 5 and ?p2.0 = ?p2] m u t run_ops0
  show ?thesis by simp
qed

end
